theory Spec2Isabelle
  imports Main "HOL-Library.AList"
begin

section \<open>Text, and the pieces of Python's standard library the code calls\<close>

text \<open>
  The locator repository of the framework lives in \<^verbatim>\<open>utils/common_methods.py\<close>
  (class \<^verbatim>\<open>CommonMethods\<close>) and the self-healing resolver in
  \<^verbatim>\<open>utils/openai_utils.py\<close> (class \<^verbatim>\<open>OpenAIUtils\<close>). Both are embedded below,
  function by function, under the names of the source.

  A Python \<^verbatim>\<open>str\<close> is a \<open>string\<close>: one \<open>char\<close> per code point, for the code
  points 0 to 255. An \<^verbatim>\<open>Optional[str]\<close> is a \<open>string option\<close>, \<open>None\<close> being
  Python's \<^verbatim>\<open>None\<close>. A file holds text: the model keeps the decoded characters of
  each file (the code reads and writes UTF-8 on both sides).
\<close>

abbreviation LF :: char where "LF \<equiv> CHR 0x0A"
abbreviation CR :: char where "CR \<equiv> CHR 0x0D"
abbreviation DQ :: char where "DQ \<equiv> CHR 0x22"
abbreviation COMMA :: char where "COMMA \<equiv> CHR 0x2C"

text \<open>\<^verbatim>\<open>str.isspace\<close> on the code points below 256, and \<^verbatim>\<open>str.strip()\<close>.\<close>

definition isspace :: "char \<Rightarrow> bool" where
  "isspace c = (of_char c \<in> {9, 10, 11, 12, 13, 28, 29, 30, 31, 32, 133, 160 :: nat})"

definition strip :: "string \<Rightarrow> string" where
  "strip s = rev (dropWhile isspace (rev (dropWhile isspace s)))"

text \<open>
  A \<^verbatim>\<open>dict\<close> with string keys is an association list in insertion order:
  \<^verbatim>\<open>d[k] = v\<close> is \<^const>\<open>AList.update\<close> (an existing key keeps its place, a new one
  goes last), \<^verbatim>\<open>k in d\<close> and \<^verbatim>\<open>d[k]\<close> are \<^const>\<open>map_of\<close>. The values are
  \<^verbatim>\<open>Optional[str]\<close>: the repair path can store \<^verbatim>\<open>None\<close>.
\<close>

type_synonym pydict = "(string \<times> string option) list"

text \<open>\<^verbatim>\<open>d.update(e)\<close>: the entries of \<open>e\<close> are stored one by one, in order.\<close>

definition dict_update :: "pydict \<Rightarrow> pydict \<Rightarrow> pydict" where
  "dict_update d e = fold (\<lambda>(k, v) acc. AList.update k v acc) e d"

subsection \<open>\<^verbatim>\<open>csv.writer\<close>, dialect \<^verbatim>\<open>excel\<close>\<close>

text \<open>
  The writer of \<^verbatim>\<open>_save_locators\<close> is \<^verbatim>\<open>csv.writer(file)\<close> with the default
  dialect: delimiter comma, quote character \<^verbatim>\<open>"\<close>, \<^verbatim>\<open>doublequote\<close>, no escape
  character, \<^verbatim>\<open>QUOTE_MINIMAL\<close>, line terminator CR LF. A field is quoted when it holds
  the delimiter, the quote character, a CR or an LF; a quote inside is doubled;
  \<^verbatim>\<open>None\<close> is written as the empty field; a record that would be empty (one empty
  field) is written as two quotes.
\<close>

definition needs_quoting :: "char \<Rightarrow> bool" where
  "needs_quoting c = (c = COMMA \<or> c = DQ \<or> c = LF \<or> c = CR)"

fun double_quotes :: "string \<Rightarrow> string" where
  "double_quotes [] = []"
| "double_quotes (c # cs) = (if c = DQ then DQ # DQ # double_quotes cs else c # double_quotes cs)"

definition join_append :: "string option \<Rightarrow> string" where
  "join_append field =
     (let data = (case field of None \<Rightarrow> [] | Some s \<Rightarrow> s)
      in if list_ex needs_quoting data then DQ # double_quotes data @ [DQ] else data)"

fun join_fields :: "string list \<Rightarrow> string" where
  "join_fields [] = []"
| "join_fields [f] = f"
| "join_fields (f # g # fs) = f @ COMMA # join_fields (g # fs)"

definition writerow :: "string option list \<Rightarrow> string" where
  "writerow row =
     (let rec = join_fields (map join_append row)
      in (if row \<noteq> [] \<and> rec = [] then [DQ, DQ] else rec) @ [CR, LF])"

subsection \<open>Reading a text file line by line\<close>

text \<open>
  \<^verbatim>\<open>_load_csv\<close> opens the file with \<^verbatim>\<open>open(csv_file, 'r', encoding='utf-8')\<close>, that
  is without \<^verbatim>\<open>newline=''\<close>: Python then reads in universal-newlines mode, where
  CR LF and a lone CR both arrive as LF. Iterating the file yields its lines, each
  with its LF (the last line may have none).
\<close>

fun universal_newlines :: "string \<Rightarrow> string" where
  "universal_newlines [] = []"
| "universal_newlines [c] = [if c = CR then LF else c]"
| "universal_newlines (c # d # cs) =
     (if c = CR \<and> d = LF then LF # universal_newlines cs
      else if c = CR then LF # universal_newlines (d # cs)
      else c # universal_newlines (d # cs))"

fun file_lines :: "string \<Rightarrow> string list" where
  "file_lines [] = []"
| "file_lines (c # cs) =
     (if c = LF then [LF] # file_lines cs
      else (case file_lines cs of [] \<Rightarrow> [[c]] | l # ls \<Rightarrow> (c # l) # ls))"

subsection \<open>\<^verbatim>\<open>csv.reader\<close>, dialect \<^verbatim>\<open>excel\<close>\<close>

text \<open>
  The reader is the state machine of CPython's \<^verbatim>\<open>_csv.c\<close>, in the states the default
  dialect reaches (no escape character, not strict, no \<^verbatim>\<open>skipinitialspace\<close>). It is
  fed the characters of a line and then the end-of-line mark. A field
  that grows past \<^verbatim>\<open>csv.field_size_limit()\<close> = 131072 characters raises
  \<^verbatim>\<open>csv.Error\<close>, as does a character after the line end of a record; raising is the
  result \<open>None\<close>.
\<close>

datatype parser_state =
  START_RECORD | START_FIELD | IN_FIELD | IN_QUOTED_FIELD | QUOTE_IN_QUOTED_FIELD | EAT_CRNL

record reader =
  pstate :: parser_state
  pfields :: "string list"
  pfield :: string

definition field_limit :: nat where
  "field_limit = 131072"

definition parse_reset :: reader where
  "parse_reset = \<lparr>pstate = START_RECORD, pfields = [], pfield = []\<rparr>"

definition parse_add_char :: "reader \<Rightarrow> char \<Rightarrow> reader option" where
  "parse_add_char r c =
     (if length (pfield r) \<ge> field_limit then None else Some (r\<lparr>pfield := pfield r @ [c]\<rparr>))"

definition parse_save_field :: "reader \<Rightarrow> reader" where
  "parse_save_field r = r\<lparr>pfields := pfields r @ [pfield r], pfield := []\<rparr>"

definition end_of_record :: "reader \<Rightarrow> parser_state \<Rightarrow> reader" where
  "end_of_record r next_state = (parse_save_field r)\<lparr>pstate := next_state\<rparr>"

text \<open>
  \<^verbatim>\<open>parse_process_char(self, c)\<close> for a character \<open>c\<close>. State \<^const>\<open>START_RECORD\<close>
  falls through to \<^const>\<open>START_FIELD\<close> for a character that is not a line end.
\<close>

definition start_field :: "reader \<Rightarrow> char \<Rightarrow> reader option" where
  "start_field r c =
     (if c = LF \<or> c = CR then Some (end_of_record r EAT_CRNL)
      else if c = DQ then Some (r\<lparr>pstate := IN_QUOTED_FIELD\<rparr>)
      else if c = COMMA then Some ((parse_save_field r)\<lparr>pstate := START_FIELD\<rparr>)
      else map_option (\<lambda>r'. r'\<lparr>pstate := IN_FIELD\<rparr>) (parse_add_char r c))"

definition parse_process_char :: "reader \<Rightarrow> char \<Rightarrow> reader option" where
  "parse_process_char r c =
     (case pstate r of
        START_RECORD \<Rightarrow>
          (if c = LF \<or> c = CR then Some (r\<lparr>pstate := EAT_CRNL\<rparr>) else start_field r c)
      | START_FIELD \<Rightarrow> start_field r c
      | IN_FIELD \<Rightarrow>
          (if c = LF \<or> c = CR then Some (end_of_record r EAT_CRNL)
           else if c = COMMA then Some ((parse_save_field r)\<lparr>pstate := START_FIELD\<rparr>)
           else parse_add_char r c)
      | IN_QUOTED_FIELD \<Rightarrow>
          (if c = DQ then Some (r\<lparr>pstate := QUOTE_IN_QUOTED_FIELD\<rparr>)
           else parse_add_char r c)
      | QUOTE_IN_QUOTED_FIELD \<Rightarrow>
          (if c = DQ
           then map_option (\<lambda>r'. r'\<lparr>pstate := IN_QUOTED_FIELD\<rparr>) (parse_add_char r c)
           else if c = COMMA then Some ((parse_save_field r)\<lparr>pstate := START_FIELD\<rparr>)
           else if c = LF \<or> c = CR then Some (end_of_record r EAT_CRNL)
           else map_option (\<lambda>r'. r'\<lparr>pstate := IN_FIELD\<rparr>) (parse_add_char r c))
      | EAT_CRNL \<Rightarrow> (if c = LF \<or> c = CR then Some r else None))"

text \<open>\<^verbatim>\<open>parse_process_char(self, EOL)\<close>, the mark after the last character of a line.\<close>

definition parse_process_eol :: "reader \<Rightarrow> reader" where
  "parse_process_eol r =
     (case pstate r of
        START_RECORD \<Rightarrow> r
      | START_FIELD \<Rightarrow> end_of_record r START_RECORD
      | IN_FIELD \<Rightarrow> end_of_record r START_RECORD
      | IN_QUOTED_FIELD \<Rightarrow> r
      | QUOTE_IN_QUOTED_FIELD \<Rightarrow> end_of_record r START_RECORD
      | EAT_CRNL \<Rightarrow> r\<lparr>pstate := START_RECORD\<rparr>)"

text \<open>One line of the file: its characters, then the end-of-line mark.\<close>

fun feed :: "reader \<Rightarrow> string \<Rightarrow> reader option" where
  "feed r [] = Some (parse_process_eol r)"
| "feed r (c # cs) =
     (case parse_process_char r c of None \<Rightarrow> None | Some r' \<Rightarrow> feed r' cs)"

text \<open>
  All the records the reader yields, in order, and whether it raised after them
  (\<^verbatim>\<open>Reader_iternext\<close>, called until it stops): a record is complete when a line ends
  in state \<^const>\<open>START_RECORD\<close>; at the end of the input a record that is still
  open (inside a quoted field, or with characters in the field) is yielded as it is.
\<close>

fun read_rows :: "reader \<Rightarrow> string list \<Rightarrow> string list list \<times> bool" where
  "read_rows r [] =
     (if pfield r \<noteq> [] \<or> pstate r = IN_QUOTED_FIELD then [pfields (parse_save_field r)] else [],
      False)"
| "read_rows r (l # ls) =
     (case feed r l of
        None \<Rightarrow> ([], True)
      | Some r' \<Rightarrow>
          if pstate r' = START_RECORD
          then (case read_rows parse_reset ls of (rows, raised) \<Rightarrow> (pfields r' # rows, raised))
          else read_rows r' ls)"

definition csv_reader :: "string \<Rightarrow> string list list \<times> bool" where
  "csv_reader text = read_rows parse_reset (file_lines (universal_newlines text))"

subsection \<open>\<^verbatim>\<open>csv.DictReader\<close>\<close>

text \<open>
  The first record is the list of field names. Every later record that is not empty
  becomes a dict: \<^verbatim>\<open>dict(zip(fieldnames, row))\<close>, and a field name the record is too
  short for is mapped to \<^verbatim>\<open>None\<close> (\<^verbatim>\<open>restval\<close>). The surplus fields of a long record
  go under the key \<^verbatim>\<open>None\<close>, which the code never reads; that entry is left out.
\<close>

definition dict_row :: "string list \<Rightarrow> string list \<Rightarrow> pydict" where
  "dict_row fieldnames row =
     fold (\<lambda>k d. AList.update k None d) (drop (length row) fieldnames)
       (fold (\<lambda>(k, v) d. AList.update k (Some v) d) (zip fieldnames row) [])"

text \<open>\<^verbatim>\<open>row.get(name, "")\<close>\<close>

definition row_get :: "pydict \<Rightarrow> string \<Rightarrow> string option" where
  "row_get d name = (case map_of d name of None \<Rightarrow> Some [] | Some v \<Rightarrow> v)"

section \<open>The locator store: \<^verbatim>\<open>CommonMethods\<close>\<close>

text \<open>
  The class attributes \<^verbatim>\<open>_locators\<close> and \<^verbatim>\<open>_loaded_files\<close> are process-wide
  state; with the file system they make up the world every function below takes and
  returns. \<open>files\<close> maps a path to the text of the file there (no entry: the file does
  not exist); \<open>read_only\<close> holds the paths that cannot be opened for writing. \<open>trace\<close>
  records the calls that leave the process, in order: it is how the theorems say that
  a file was opened, the page probed or the language model called.
\<close>

datatype event =
  OpenRead string
| OpenWrite string
| WaitForSelector string
| IsVisible string
| PageContent
| ChatCompletion
| Sleep nat

record world =
  locators :: pydict
  loaded_files :: "string set"
  files :: "string \<Rightarrow> string option"
  read_only :: "string set"
  trace :: "event list"

definition emit :: "event list \<Rightarrow> world \<Rightarrow> world" where
  "emit evs w = w\<lparr>trace := trace w @ evs\<rparr>"

text \<open>\<^verbatim>\<open>csv_file = f"./object_repository/{file_name}"\<close>\<close>

definition csv_file :: "string \<Rightarrow> string" where
  "csv_file file_name = ''./object_repository/'' @ file_name"

text \<open>
  The loop of \<^verbatim>\<open>_load_csv\<close> over the rows of the \<^verbatim>\<open>DictReader\<close>. \<^verbatim>\<open>.strip()\<close> on a
  value that is \<^verbatim>\<open>None\<close> raises \<^verbatim>\<open>AttributeError\<close>; the \<^verbatim>\<open>except Exception\<close>
  around the loop ends it, and the function returns the locators gathered so far.
  The \<^verbatim>\<open>DictReader\<close> skips empty records.
\<close>

fun load_rows :: "string list \<Rightarrow> string list list \<Rightarrow> pydict \<Rightarrow> pydict" where
  "load_rows fieldnames [] locs = locs"
| "load_rows fieldnames (row # rows) locs =
     (if row = [] then load_rows fieldnames rows locs
      else
        (case row_get (dict_row fieldnames row) ''Element Name'' of
           None \<Rightarrow> locs
         | Some k \<Rightarrow>
             (case row_get (dict_row fieldnames row) ''Locator'' of
                None \<Rightarrow> locs
              | Some v \<Rightarrow>
                  (let key = strip k; val = strip v
                   in if key \<noteq> [] \<and> val \<noteq> []
                      then load_rows fieldnames rows (AList.update key (Some val) locs)
                      else load_rows fieldnames rows locs))))"

text \<open>
  What \<^verbatim>\<open>_load_csv\<close> makes of the text of a file. The reader raising (at the field
  names or at a later record) is caught by the same \<^verbatim>\<open>except Exception\<close>: the rows
  read before count.
\<close>

definition parse_locators :: "string \<Rightarrow> pydict" where
  "parse_locators text =
     (case fst (csv_reader text) of
        [] \<Rightarrow> []
      | fieldnames # rows \<Rightarrow> load_rows fieldnames rows [])"

text \<open>
  \<^verbatim>\<open>_load_csv(file_name)\<close>: \<^verbatim>\<open>FileNotFoundError\<close> gives the empty dict. The function
  reads the world and changes nothing but the trace.
\<close>

definition load_csv :: "string \<Rightarrow> world \<Rightarrow> pydict \<times> world" where
  "load_csv file_name w =
     (case files w (csv_file file_name) of
        None \<Rightarrow> []
      | Some text \<Rightarrow> parse_locators text,
      emit [OpenRead (csv_file file_name)] w)"

text \<open>
  \<^verbatim>\<open>_save_locators(locators, file_name)\<close>: the file is opened with mode \<^verbatim>\<open>'w'\<close> and
  \<^verbatim>\<open>newline=''\<close>, so the writer's CR LF reach the file as they are. When the file
  cannot be opened the exception is caught and logged, and nothing is written.
\<close>

definition save_text :: "pydict \<Rightarrow> string" where
  "save_text locs =
     writerow [Some ''Element Name'', Some ''Locator'']
       @ concat (map (\<lambda>(key, val). writerow [Some key, val]) locs)"

definition save_locators :: "pydict \<Rightarrow> string \<Rightarrow> world \<Rightarrow> world" where
  "save_locators locs file_name w =
     (if csv_file file_name \<in> read_only w
      then emit [OpenWrite (csv_file file_name)] w
      else emit [OpenWrite (csv_file file_name)]
             (w\<lparr>files := (files w)(csv_file file_name \<mapsto> save_text locs)\<rparr>))"

text \<open>\<^verbatim>\<open>get_values_from_csv(element_name, file_name)\<close>\<close>

definition get_values_from_csv :: "string \<Rightarrow> string \<Rightarrow> world \<Rightarrow> string option \<times> world" where
  "get_values_from_csv element_name file_name w =
     (let w1 =
        (if file_name \<in> loaded_files w then w
         else
           (case load_csv file_name w of
              (loaded, w') \<Rightarrow>
                w'\<lparr>locators := dict_update (locators w') loaded,
                   loaded_files := insert file_name (loaded_files w')\<rparr>))
      in (case map_of (locators w1) element_name of None \<Rightarrow> None | Some v \<Rightarrow> v, w1))"

text \<open>
  \<^verbatim>\<open>update_locator(element_name, locator, file_name)\<close>. The first statement assigns
  the freshly loaded dict to \<^verbatim>\<open>CommonMethods._locators\<close>. The caller in
  \<^verbatim>\<open>openai_utils.py\<close> can pass \<^verbatim>\<open>None\<close> for \<open>locator\<close>.
\<close>

definition update_locator :: "string \<Rightarrow> string option \<Rightarrow> string \<Rightarrow> world \<Rightarrow> world" where
  "update_locator element_name locator file_name w =
     (case load_csv file_name w of
        (loaded, w1) \<Rightarrow>
          (let w2 = w1\<lparr>locators := AList.update element_name locator loaded\<rparr>
           in save_locators (locators w2) file_name w2))"

text \<open>
  The cache is invalidated by its owner, \<^verbatim>\<open>tests/conftest.py\<close> (fixture
  \<^verbatim>\<open>setup_pages\<close>): \<^verbatim>\<open>_locators.clear()\<close> and \<^verbatim>\<open>_loaded_files.clear()\<close>.
\<close>

definition invalidate :: "world \<Rightarrow> world" where
  "invalidate w = w\<lparr>locators := [], loaded_files := {}\<rparr>"

section \<open>The self-healing resolver: \<^verbatim>\<open>OpenAIUtils\<close>\<close>

subsection \<open>The language-model call\<close>

text \<open>
  One call of \<^verbatim>\<open>client.chat.completions.create\<close> raises, or returns a response without
  choices, or returns a response whose first choice carries a message content
  (a string, or \<^verbatim>\<open>None\<close>). The service is a function from the prompt and the number of
  the attempt to what that attempt does.
\<close>

datatype completion = Raises | NoChoices | Content "string option"

type_synonym chat = "string \<Rightarrow> nat \<Rightarrow> completion"

datatype exn = RuntimeError

text \<open>
  \<^verbatim>\<open>_call_openai_with_retries(client, request_data, max_retries)\<close>: the loop
  \<^verbatim>\<open>for i in range(max_retries)\<close> runs over the list of the indices. A content of
  \<^verbatim>\<open>None\<close> makes \<^verbatim>\<open>.strip()\<close> raise inside the \<^verbatim>\<open>try\<close>, so that attempt fails like
  one that raised. The result comes with the calls and the sleeps made, in order.
\<close>

fun attempt_fails :: "completion \<Rightarrow> bool" where
  "attempt_fails Raises = True"
| "attempt_fails NoChoices = False"
| "attempt_fails (Content None) = True"
| "attempt_fails (Content (Some text)) = False"

fun retry_loop :: "(nat \<Rightarrow> completion) \<Rightarrow> nat \<Rightarrow> nat list \<Rightarrow> (exn + string) \<times> event list" where
  "retry_loop create max_retries [] = (Inr ''No response generated after retries.'', [])"
| "retry_loop create max_retries (i # rest) =
     (case create i of
        Content (Some text) \<Rightarrow> (Inr (strip text), [ChatCompletion])
      | NoChoices \<Rightarrow> (Inr ''No response generated.'', [ChatCompletion])
      | _ \<Rightarrow>
          if int i = int max_retries - 1 then (Inl RuntimeError, [ChatCompletion])
          else (case retry_loop create max_retries rest of
                  (result, evs) \<Rightarrow> (result, ChatCompletion # Sleep 2 # evs)))"

definition call_openai_with_retries :: "(nat \<Rightarrow> completion) \<Rightarrow> nat \<Rightarrow> (exn + string) \<times> event list" where
  "call_openai_with_retries create max_retries = retry_loop create max_retries [0..<max_retries]"

text \<open>
  \<^verbatim>\<open>generate_response_new(prompt)\<close>: three retries; any exception becomes \<^verbatim>\<open>None\<close>.
\<close>

definition generate_response_new :: "chat \<Rightarrow> string \<Rightarrow> string option \<times> event list" where
  "generate_response_new ai prompt =
     (case call_openai_with_retries (ai prompt) 3 of
        (Inl e, evs) \<Rightarrow> (None, evs)
      | (Inr text, evs) \<Rightarrow> (Some text, evs))"

subsection \<open>Extracting the candidate\<close>

text \<open>
  \<^verbatim>\<open>_extract_xpath_from_response\<close> searches the response for the regular expression
  \<^verbatim>\<open>"(.*?)"\<close> and returns group 1 of the first match. The dot matches every character
  but LF, and the group is as short as possible: the match starts at the first quote
  that is followed, before any LF, by another quote, and the group is the text
  between the two.
\<close>

fun up_to_quote :: "string \<Rightarrow> string option" where
  "up_to_quote [] = None"
| "up_to_quote (c # cs) =
     (if c = DQ then Some []
      else if c = LF then None
      else map_option ((#) c) (up_to_quote cs))"

fun extract_xpath_from_response :: "string \<Rightarrow> string option" where
  "extract_xpath_from_response [] = None"
| "extract_xpath_from_response (c # cs) =
     (if c = DQ
      then (case up_to_quote cs of
              Some inner \<Rightarrow> Some inner
            | None \<Rightarrow> extract_xpath_from_response cs)
      else extract_xpath_from_response cs)"

subsection \<open>The live page\<close>

text \<open>
  The three calls the resolver makes on the Playwright page.
  \<open>wait_for_selector page sel\<close> is true when the call returns and false when it raises
  (a timeout, or any other error); \<open>is_visible page sel\<close> and \<open>content page\<close> are
  \<open>None\<close> when the call raises.
\<close>

record page =
  wait_for_selector :: "string \<Rightarrow> bool"
  is_visible :: "string \<Rightarrow> bool option"
  content :: "string option"

subsection \<open>\<^verbatim>\<open>verify_and_get_locators_using_ai\<close>\<close>

definition prompt_for :: "string \<Rightarrow> string \<Rightarrow> string" where
  "prompt_for locator dom_content =
     ''As a seasoned QA Analyst, your mission is to analyze the DOM (Document Object Model) ''
     @ ''of a web application and recommend the most appropriate locator for '' @ locator
     @ '' to identify and interact with specific elements. Your goal is to provide a robust ''
     @ ''and reliable set of locator that will ensure the stability and maintainability ''
     @ ''of your test automation framework. : '' @ dom_content @ '' ''
     @ ''And Do not provide any extra description and By.Locatorname as well, ''
     @ ''just return result as locator = <correct_locator>''"

text \<open>
  The body of the handler \<^verbatim>\<open>except (PlaywrightTimeoutError, Exception)\<close>. When
  \<^verbatim>\<open>page.content()\<close> raises, the outer handler returns \<^verbatim>\<open>None\<close>. A response that is
  \<^verbatim>\<open>None\<close> or empty skips the \<^verbatim>\<open>if corrected_locator:\<close> block. Inside the block the
  extracted value is passed to \<^verbatim>\<open>update_locator\<close> and returned as it is. Attaching
  the correction to the Allure report has no effect on the world.
\<close>

definition ai_correction :: "page \<Rightarrow> chat \<Rightarrow> string \<Rightarrow> string \<Rightarrow> string \<Rightarrow> world \<Rightarrow> string option \<times> world" where
  "ai_correction pg ai element file_name locator w =
     (case content pg of
        None \<Rightarrow> (None, emit [PageContent] w)
      | Some dom_content \<Rightarrow>
          (case generate_response_new ai (prompt_for locator dom_content) of
             (response, evs) \<Rightarrow>
               (let w1 = emit (PageContent # evs) w
                in (case response of
                      None \<Rightarrow> (None, w1)
                    | Some text \<Rightarrow>
                        if text = [] then (None, w1)
                        else
                          (let corrected_locator = extract_xpath_from_response text
                           in (corrected_locator,
                               update_locator element corrected_locator file_name w1))))))"

text \<open>
  The function itself. \<^verbatim>\<open>if not locator\<close> holds for \<^verbatim>\<open>None\<close> and for the empty
  string. When \<^verbatim>\<open>wait_for_selector\<close> returns and \<^verbatim>\<open>is_visible\<close> returns
  \<^verbatim>\<open>False\<close>, no branch of the inner \<^verbatim>\<open>try\<close> returns and control reaches the final
  \<^verbatim>\<open>return None\<close>.
\<close>

definition verify_and_get_locators_using_ai :: "page \<Rightarrow> chat \<Rightarrow> string \<Rightarrow> string \<Rightarrow> world \<Rightarrow> string option \<times> world" where
  "verify_and_get_locators_using_ai pg ai element file_name w =
     (case get_values_from_csv element file_name w of
        (None, w1) \<Rightarrow> (None, w1)
      | (Some locator, w1) \<Rightarrow>
          if locator = [] then (None, w1)
          else if wait_for_selector pg locator
          then
            (case is_visible pg locator of
               Some True \<Rightarrow> (Some locator, emit [WaitForSelector locator, IsVisible locator] w1)
             | Some False \<Rightarrow> (None, emit [WaitForSelector locator, IsVisible locator] w1)
             | None \<Rightarrow>
                 ai_correction pg ai element file_name locator
                   (emit [WaitForSelector locator, IsVisible locator] w1))
          else ai_correction pg ai element file_name locator (emit [WaitForSelector locator] w1))"

section \<open>Observations and example worlds\<close>

text \<open>The events a run added to the trace of the world it started from.\<close>

definition new_events :: "world \<Rightarrow> world \<Rightarrow> event list" where
  "new_events w w' = drop (length (trace w)) (trace w')"

text \<open>
  The scenario of the specification: \<^verbatim>\<open>Login_Elements.csv\<close> holds the row
  \<^verbatim>\<open>txtUsername,#user\<close> under the header that \<^verbatim>\<open>_save_locators\<close> writes.
\<close>

definition login_csv :: string where
  "login_csv = ''Element Name,Locator'' @ [CR, LF] @ ''txtUsername,#user'' @ [CR, LF]"

definition login_world :: world where
  "login_world =
     \<lparr>locators = [], loaded_files = {},
      files = [csv_file ''Login_Elements.csv'' \<mapsto> login_csv],
      read_only = {}, trace = []\<rparr>"

text \<open>Three pages: the element never appears; it appears and is visible; it appears hidden.\<close>

definition page_missing :: page where
  "page_missing =
     \<lparr>wait_for_selector = (\<lambda>sel. False), is_visible = (\<lambda>sel. None),
      content = Some ''<html></html>''\<rparr>"

definition page_visible :: page where
  "page_visible =
     \<lparr>wait_for_selector = (\<lambda>sel. True), is_visible = (\<lambda>sel. Some True),
      content = Some ''<html></html>''\<rparr>"

definition page_hidden :: page where
  "page_hidden =
     \<lparr>wait_for_selector = (\<lambda>sel. True), is_visible = (\<lambda>sel. Some False),
      content = Some ''<html></html>''\<rparr>"

text \<open>A service that answers every prompt with the same text, and one that is down.\<close>

definition answers :: "string \<Rightarrow> chat" where
  "answers text = (\<lambda>prompt i. Content (Some text))"

definition service_down :: chat where
  "service_down = (\<lambda>prompt i. Raises)"

text \<open>
  A cache lifetime without invalidation: a sequence of lookups, each a key and a
  source file, run one after the other. \<open>reads_of\<close> lists the files such a sequence
  opens, given the set of the files loaded before it.
\<close>

fun resolve_all :: "(string \<times> string) list \<Rightarrow> world \<Rightarrow> world" where
  "resolve_all [] w = w"
| "resolve_all ((element, file_name) # calls) w =
     resolve_all calls (snd (get_values_from_csv element file_name w))"

fun reads_of :: "(string \<times> string) list \<Rightarrow> string set \<Rightarrow> event list" where
  "reads_of [] loaded = []"
| "reads_of ((element, file_name) # calls) loaded =
     (if file_name \<in> loaded then reads_of calls loaded
      else OpenRead (csv_file file_name) # reads_of calls (insert file_name loaded))"

text \<open>
  The reply of the language model in the second scenario of the specification,
  \<^verbatim>\<open>Use locator = "//div[@id='login']"\<close>, and the selector quoted in it.
\<close>

definition login_candidate :: string where
  "login_candidate = ''//div[@id='' @ [CHR 0x27] @ ''login'' @ [CHR 0x27] @ '']''"

definition login_reply :: string where
  "login_reply = ''Use locator = '' @ [DQ] @ login_candidate @ [DQ]"

text \<open>A reply of the language model that quotes nothing.\<close>

definition plain_reply :: string where
  "plain_reply = ''No locator found''"

text \<open>
  A second source file, \<^verbatim>\<open>Home_Elements.csv\<close> with the row \<^verbatim>\<open>btnHome,#home\<close>, beside
  \<^verbatim>\<open>Login_Elements.csv\<close>.
\<close>

definition home_csv :: string where
  "home_csv = ''Element Name,Locator'' @ [CR, LF] @ ''btnHome,#home'' @ [CR, LF]"

definition two_files_world :: world where
  "two_files_world =
     \<lparr>locators = [], loaded_files = {},
      files = [csv_file ''Login_Elements.csv'' \<mapsto> login_csv,
               csv_file ''Home_Elements.csv'' \<mapsto> home_csv],
      read_only = {}, trace = []\<rparr>"

text \<open>
  A source file whose second data row has lost its selector column:
  the rows \<^verbatim>\<open>a,1\<close>, \<^verbatim>\<open>b\<close> and \<^verbatim>\<open>c,3\<close> under the header.
\<close>

definition short_row_csv :: string where
  "short_row_csv =
     ''Element Name,Locator'' @ [LF] @ ''a,1'' @ [LF] @ ''b'' @ [LF] @ ''c,3'' @ [LF]"

definition short_row_world :: world where
  "short_row_world =
     \<lparr>locators = [], loaded_files = {},
      files = [csv_file ''Login_Elements.csv'' \<mapsto> short_row_csv],
      read_only = {}, trace = []\<rparr>"

text \<open>
  The same file with the selector column of the second data row present and empty:
  the rows \<^verbatim>\<open>a,1\<close>, \<^verbatim>\<open>b,\<close> and \<^verbatim>\<open>c,3\<close> under the header.
\<close>

definition empty_selector_csv :: string where
  "empty_selector_csv =
     ''Element Name,Locator'' @ [LF] @ ''a,1'' @ [LF] @ ''b,'' @ [LF] @ ''c,3'' @ [LF]"

text \<open>
  Notions for the round trip through a source file. \<open>read_text\<close> is the reader on the
  text of a file that is already in universal-newlines form. A field is \<open>clean\<close> when
  the reader can yield it: no CR (the text mode has turned each into LF) and within
  the field size limit. A text is \<open>storable\<close> when a save followed by a load gives it
  back: not empty, nothing for \<^verbatim>\<open>.strip()\<close> to remove, and clean. \<open>unix_row\<close> is a
  row as the writer writes it, its CR LF read as LF.
\<close>

definition read_text :: "reader \<Rightarrow> string \<Rightarrow> string list list \<times> bool" where
  "read_text r t = read_rows r (file_lines t)"

definition clean :: "string \<Rightarrow> bool" where
  "clean s = (CR \<notin> set s \<and> length s \<le> field_limit)"

definition reader_clean :: "reader \<Rightarrow> bool" where
  "reader_clean r = (list_all clean (pfields r) \<and> clean (pfield r))"

definition storable :: "string \<Rightarrow> bool" where
  "storable s = (s \<noteq> [] \<and> strip s = s \<and> CR \<notin> set s \<and> length s \<le> field_limit)"

fun storable_entry :: "string \<times> string option \<Rightarrow> bool" where
  "storable_entry (k, None) = False"
| "storable_entry (k, Some v) = (storable k \<and> storable v)"

definition storable_dict :: "pydict \<Rightarrow> bool" where
  "storable_dict d = (distinct (map fst d) \<and> list_all storable_entry d)"

fun row_of :: "string \<times> string option \<Rightarrow> string list" where
  "row_of (k, None) = [k, []]"
| "row_of (k, Some v) = [k, v]"

fun unix_row :: "string \<times> string option \<Rightarrow> string" where
  "unix_row (k, v) = join_append (Some k) @ COMMA # join_append v @ [LF]"

text \<open>A selector with a carriage return in the middle: \<^verbatim>\<open>a\<close>, CR, \<^verbatim>\<open>b\<close>.\<close>

definition cr_selector :: string where
  "cr_selector = ''a'' @ [CR] @ ''b''"

section \<open>Facts about the store\<close>

lemma csv_file_inj [simp]: "csv_file f = csv_file g \<longleftrightarrow> f = g"
  by (simp add: csv_file_def)

lemma load_csv_snd [simp]: "snd (load_csv f w) = emit [OpenRead (csv_file f)] w"
  by (simp add: load_csv_def)

lemma emit_fields [simp]:
  "locators (emit evs w) = locators w"
  "loaded_files (emit evs w) = loaded_files w"
  "files (emit evs w) = files w"
  "read_only (emit evs w) = read_only w"
  "trace (emit evs w) = trace w @ evs"
  by (simp_all add: emit_def)

lemma new_events_append [simp]: "trace w' = trace w @ evs \<Longrightarrow> new_events w w' = evs"
  by (simp add: new_events_def)

lemma get_values_from_csv_loaded:
  "file_name \<in> loaded_files w \<Longrightarrow>
   get_values_from_csv element file_name w =
     (case map_of (locators w) element of None \<Rightarrow> None | Some v \<Rightarrow> v, w)"
  by (simp add: get_values_from_csv_def)

lemma get_values_from_csv_files [simp]:
  "files (snd (get_values_from_csv element file_name w)) = files w"
  "read_only (snd (get_values_from_csv element file_name w)) = read_only w"
  by (simp_all add: get_values_from_csv_def Let_def split: prod.splits)
    (auto simp: load_csv_def emit_def)

lemma get_values_from_csv_trace:
  "trace (snd (get_values_from_csv element file_name w)) =
     trace w @ (if file_name \<in> loaded_files w then [] else [OpenRead (csv_file file_name)])"
  by (simp add: get_values_from_csv_def Let_def split: prod.splits)
    (auto simp: load_csv_def emit_def)

lemma new_events_get_values_from_csv:
  "new_events w (snd (get_values_from_csv element file_name w)) =
     (if file_name \<in> loaded_files w then [] else [OpenRead (csv_file file_name)])"
  by (simp add: get_values_from_csv_trace)

lemma get_values_from_csv_loaded_files:
  "loaded_files (snd (get_values_from_csv element file_name w)) = insert file_name (loaded_files w)"
  by (simp add: get_values_from_csv_def Let_def split: prod.splits)
    (auto simp: load_csv_def emit_def)

section \<open>Evaluating the scenario\<close>

lemmas reader_simps =
  parse_process_char_def parse_process_eol_def start_field_def parse_add_char_def
  parse_save_field_def end_of_record_def field_limit_def parse_reset_def

lemmas load_simps = dict_row_def row_get_def strip_def isspace_def

lemma parse_login_csv: "parse_locators login_csv = [(''txtUsername'', Some ''#user'')]"
proof -
  have "universal_newlines login_csv =
        ''Element Name,Locator'' @ [LF] @ ''txtUsername,#user'' @ [LF]"
    by (simp add: login_csv_def)
  then have lines: "file_lines (universal_newlines login_csv) =
        [''Element Name,Locator'' @ [LF], ''txtUsername,#user'' @ [LF]]"
    by simp
  have "csv_reader login_csv = ([[''Element Name'', ''Locator''], [''txtUsername'', ''#user'']], False)"
    unfolding csv_reader_def lines by (simp add: reader_simps)
  then show ?thesis
    by (simp add: parse_locators_def load_simps)
qed

lemma get_login:
  "get_values_from_csv ''txtUsername'' ''Login_Elements.csv'' login_world =
     (Some ''#user'',
      login_world\<lparr>locators := [(''txtUsername'', Some ''#user'')],
                  loaded_files := {''Login_Elements.csv''},
                  trace := [OpenRead (csv_file ''Login_Elements.csv'')]\<rparr>)"
  by (simp add: get_values_from_csv_def load_csv_def login_world_def parse_login_csv
      dict_update_def emit_def)

lemma get_login_missing:
  "fst (get_values_from_csv ''btnMissing'' ''Login_Elements.csv'' login_world) = None"
  by (simp add: get_values_from_csv_def load_csv_def login_world_def parse_login_csv
      dict_update_def emit_def)

section \<open>Facts about the language-model call\<close>

lemma range_3: "[0..<3] = [0, 1, 2]"
  by (simp add: upt_rec)

lemma generate_response_new_events:
  "snd (generate_response_new ai prompt) \<in>
     {[ChatCompletion],
      [ChatCompletion, Sleep 2, ChatCompletion],
      [ChatCompletion, Sleep 2, ChatCompletion, Sleep 2, ChatCompletion]}"
  by (simp add: generate_response_new_def call_openai_with_retries_def range_3
      split: completion.splits option.splits prod.splits sum.splits)

lemma generate_response_new_all_fail:
  assumes "attempt_fails (ai prompt 0)" "attempt_fails (ai prompt 1)" "attempt_fails (ai prompt 2)"
  shows "generate_response_new ai prompt =
           (None, [ChatCompletion, Sleep 2, ChatCompletion, Sleep 2, ChatCompletion])"
proof -
  have fails: "\<And>c. attempt_fails c \<longleftrightarrow> c = Raises \<or> c = Content None"
    by (case_tac c rule: attempt_fails.cases) simp_all
  show ?thesis
    using assms
    by (auto simp: fails generate_response_new_def call_openai_with_retries_def range_3)
qed

lemma ai_correction_no_response:
  assumes "content pg = Some html"
    and "generate_response_new ai (prompt_for locator html) = (None, evs)"
  shows "ai_correction pg ai element file_name locator w = (None, emit (PageContent # evs) w)"
  using assms by (simp add: ai_correction_def)

lemma verify_probe_fails:
  assumes "get_values_from_csv element file_name w = (Some locator, w1)"
    and "locator \<noteq> []"
    and "\<not> wait_for_selector pg locator \<or> is_visible pg locator = None"
  shows "verify_and_get_locators_using_ai pg ai element file_name w =
           ai_correction pg ai element file_name locator
             (emit (if wait_for_selector pg locator
                    then [WaitForSelector locator, IsVisible locator]
                    else [WaitForSelector locator]) w1)"
  using assms by (auto simp: verify_and_get_locators_using_ai_def)

section \<open>Facts about sequences of lookups\<close>

lemma resolve_all_trace:
  "trace (resolve_all calls w) = trace w @ reads_of calls (loaded_files w)"
proof (induction calls w rule: resolve_all.induct)
  case (1 w)
  show ?case by simp
next
  case (2 element file_name calls w)
  then show ?case
    by (simp add: get_values_from_csv_trace get_values_from_csv_loaded_files insert_absorb)
qed

lemma count_reads_of:
  "count_list (reads_of calls loaded) (OpenRead (csv_file f)) =
     (if f \<in> loaded \<or> f \<notin> snd ` set calls then 0 else 1)"
  by (induction calls loaded rule: reads_of.induct) auto

section \<open>Facts about the repair path\<close>

lemma load_csv_fst:
  "fst (load_csv f w) = (case files w (csv_file f) of None \<Rightarrow> [] | Some text \<Rightarrow> parse_locators text)"
  by (simp add: load_csv_def)

lemma load_csv_emit [simp]: "fst (load_csv f (emit evs w)) = fst (load_csv f w)"
  by (simp add: load_csv_fst)

lemma update_locator_fields:
  "locators (update_locator e l f w) = AList.update e l (fst (load_csv f w))"
  "loaded_files (update_locator e l f w) = loaded_files w"
  "read_only (update_locator e l f w) = read_only w"
  "trace (update_locator e l f w) = trace w @ [OpenRead (csv_file f), OpenWrite (csv_file f)]"
  "files (update_locator e l f w) =
     (if csv_file f \<in> read_only w then files w
      else (files w)(csv_file f \<mapsto> save_text (AList.update e l (fst (load_csv f w)))))"
  by (simp_all add: update_locator_def save_locators_def load_csv_def emit_def Let_def)

lemma ai_correction_response:
  assumes "content pg = Some html"
    and "generate_response_new ai (prompt_for locator html) = (Some text, evs)"
    and "text \<noteq> []"
  shows "ai_correction pg ai element file_name locator w =
           (extract_xpath_from_response text,
            update_locator element (extract_xpath_from_response text) file_name
              (emit (PageContent # evs) w))"
  using assms by (simp add: ai_correction_def Let_def)

lemma extract_login_reply: "extract_xpath_from_response login_reply = Some login_candidate"
  by (simp add: login_reply_def login_candidate_def)

lemma login_reply_not_empty: "login_reply \<noteq> []"
  by (simp add: login_reply_def)

lemma save_login_candidate:
  "save_text [(''txtUsername'', Some login_candidate)] =
     ''Element Name,Locator'' @ [CR, LF] @ ''txtUsername,'' @ login_candidate @ [CR, LF]"
  by (simp add: save_text_def writerow_def join_append_def needs_quoting_def login_candidate_def)

lemma generate_answers:
  "strip text = text \<Longrightarrow> generate_response_new (answers text) p = (Some text, [ChatCompletion])"
  by (simp add: generate_response_new_def call_openai_with_retries_def range_3 answers_def)

lemma strip_login_reply: "strip login_reply = login_reply"
  by (simp add: login_reply_def login_candidate_def strip_def isspace_def)

lemma verify_repair_response:
  assumes "get_values_from_csv element file_name w = (Some locator, w1)"
    and "locator \<noteq> []"
    and "\<not> wait_for_selector pg locator \<or> is_visible pg locator = None"
    and "content pg = Some html"
    and "generate_response_new ai (prompt_for locator html) = (Some text, evs)"
    and "text \<noteq> []"
  shows "verify_and_get_locators_using_ai pg ai element file_name w =
           (extract_xpath_from_response text,
            update_locator element (extract_xpath_from_response text) file_name
              (emit (PageContent # evs)
                 (emit (if wait_for_selector pg locator
                        then [WaitForSelector locator, IsVisible locator]
                        else [WaitForSelector locator]) w1)))"
  unfolding verify_probe_fails [OF assms(1-3)]
  by (rule ai_correction_response [OF assms(4-6)])

lemma get_values_from_csv_locators:
  "locators (snd (get_values_from_csv element file_name w)) =
     (if file_name \<in> loaded_files w then locators w
      else dict_update (locators w) (fst (load_csv file_name w)))"
  by (simp add: get_values_from_csv_def Let_def load_csv_def emit_def split: prod.splits)

lemma get_values_from_csv_fst:
  "fst (get_values_from_csv element file_name w) =
     (case map_of (locators (snd (get_values_from_csv element file_name w))) element of
        None \<Rightarrow> None | Some v \<Rightarrow> v)"
  by (simp add: get_values_from_csv_def Let_def split: prod.splits)

lemma invalidate_fields [simp]:
  "locators (invalidate w) = []"
  "loaded_files (invalidate w) = {}"
  "files (invalidate w) = files w"
  "read_only (invalidate w) = read_only w"
  "trace (invalidate w) = trace w"
  by (simp_all add: invalidate_def)

lemma parse_home_csv: "parse_locators home_csv = [(''btnHome'', Some ''#home'')]"
proof -
  have "universal_newlines home_csv = ''Element Name,Locator'' @ [LF] @ ''btnHome,#home'' @ [LF]"
    by (simp add: home_csv_def)
  then have lines: "file_lines (universal_newlines home_csv) =
        [''Element Name,Locator'' @ [LF], ''btnHome,#home'' @ [LF]]"
    by simp
  have "csv_reader home_csv = ([[''Element Name'', ''Locator''], [''btnHome'', ''#home'']], False)"
    unfolding csv_reader_def lines by (simp add: reader_simps)
  then show ?thesis
    by (simp add: parse_locators_def load_simps)
qed

lemma two_files_world_fields:
  "locators two_files_world = []"
  "loaded_files two_files_world = {}"
  "read_only two_files_world = {}"
  "files two_files_world (csv_file ''Login_Elements.csv'') = Some login_csv"
  "files two_files_world (csv_file ''Home_Elements.csv'') = Some home_csv"
  by (simp_all add: two_files_world_def)

section \<open>Facts about loading\<close>

lemma row_get_standard_header:
  assumes "2 \<le> length row"
  shows "row_get (dict_row [''Element Name'', ''Locator''] row) ''Element Name'' = Some (hd row)"
    and "row_get (dict_row [''Element Name'', ''Locator''] row) ''Locator'' = Some (hd (tl row))"
proof -
  obtain k v rest where row: "row = k # v # rest"
    using assms by (cases row; cases "tl row") auto
  show "row_get (dict_row [''Element Name'', ''Locator''] row) ''Element Name'' = Some (hd row)"
    and "row_get (dict_row [''Element Name'', ''Locator''] row) ''Locator'' = Some (hd (tl row))"
    by (simp_all add: row dict_row_def row_get_def)
qed

lemma strip_Nil [simp]: "strip [] = []"
  by (simp add: strip_def)

lemma short_row_rows:
  "fst (csv_reader short_row_csv) =
     [[''Element Name'', ''Locator''], [''a'', ''1''], [''b''], [''c'', ''3'']]"
proof -
  have "universal_newlines short_row_csv = short_row_csv"
    by (simp add: short_row_csv_def)
  moreover have "file_lines short_row_csv =
        [''Element Name,Locator'' @ [LF], ''a,1'' @ [LF], ''b'' @ [LF], ''c,3'' @ [LF]]"
    by (simp add: short_row_csv_def)
  ultimately show ?thesis
    unfolding csv_reader_def by (simp add: reader_simps)
qed

lemma short_row_load:
  "fst (load_csv ''Login_Elements.csv'' short_row_world) = [(''a'', Some ''1'')]"
  by (simp add: load_csv_fst short_row_world_def parse_locators_def short_row_rows load_simps)

lemma short_row_locator:
  "row_get (dict_row [''Element Name'', ''Locator''] [''b'']) ''Element Name'' = Some ''b''"
  "row_get (dict_row [''Element Name'', ''Locator''] [''b'']) ''Locator'' = None"
  by (simp_all add: dict_row_def row_get_def)

lemma empty_selector_rows:
  "fst (csv_reader empty_selector_csv) =
     [[''Element Name'', ''Locator''], [''a'', ''1''], [''b'', ''''], [''c'', ''3'']]"
proof -
  have "universal_newlines empty_selector_csv = empty_selector_csv"
    by (simp add: empty_selector_csv_def)
  moreover have "file_lines empty_selector_csv =
        [''Element Name,Locator'' @ [LF], ''a,1'' @ [LF], ''b,'' @ [LF], ''c,3'' @ [LF]]"
    by (simp add: empty_selector_csv_def)
  ultimately show ?thesis
    unfolding csv_reader_def by (simp add: reader_simps)
qed

lemma empty_selector_load:
  "parse_locators empty_selector_csv = [(''a'', Some ''1''), (''c'', Some ''3'')]"
  by (simp add: parse_locators_def empty_selector_rows load_simps)

section \<open>The round trip through a source file\<close>

subsection \<open>Reading what the writer wrote\<close>

lemma file_lines_eq_Nil [simp]: "file_lines t = [] \<longleftrightarrow> t = []"
  by (cases t) (auto split: list.splits)

lemma read_text_Nil [simp]: "read_text parse_reset [] = ([], False)"
  by (simp add: read_text_def parse_reset_def)

lemma read_text_char:
  assumes "c \<noteq> LF" and "t \<noteq> []"
  shows "read_text r (c # t) =
           (case parse_process_char r c of None \<Rightarrow> ([], True) | Some r' \<Rightarrow> read_text r' t)"
proof -
  obtain l ls where ls: "file_lines t = l # ls"
    using assms(2) by (cases "file_lines t") auto
  show ?thesis
    using assms(1) by (simp add: read_text_def ls split: option.splits)
qed

lemma read_text_LF:
  "read_text r (LF # t) =
     (case parse_process_char r LF of
        None \<Rightarrow> ([], True)
      | Some r' \<Rightarrow>
          if pstate (parse_process_eol r') = START_RECORD
          then (case read_text parse_reset t of
                  (rows, raised) \<Rightarrow> (pfields (parse_process_eol r') # rows, raised))
          else read_text (parse_process_eol r') t)"
  by (simp add: read_text_def split: option.splits)

lemma unquoted_body:
  assumes "list_all (\<lambda>c. \<not> needs_quoting c) s" and "t \<noteq> []"
    and "length f + length s \<le> field_limit"
  shows "read_text \<lparr>pstate = IN_FIELD, pfields = fs, pfield = f\<rparr> (s @ t) =
         read_text \<lparr>pstate = IN_FIELD, pfields = fs, pfield = f @ s\<rparr> t"
  using assms
proof (induction s arbitrary: f)
  case Nil
  then show ?case by simp
next
  case (Cons c s)
  from Cons.prems have c: "c \<noteq> LF" "c \<noteq> CR" "c \<noteq> COMMA" "c \<noteq> DQ"
    and s: "list_all (\<lambda>c. \<not> needs_quoting c) s"
    and len: "length f < field_limit" "length (f @ [c]) + length s \<le> field_limit"
    by (auto simp: needs_quoting_def)
  have "read_text \<lparr>pstate = IN_FIELD, pfields = fs, pfield = f\<rparr> ((c # s) @ t) =
        read_text \<lparr>pstate = IN_FIELD, pfields = fs, pfield = f @ [c]\<rparr> (s @ t)"
    using c len Cons.prems(2)
    by (simp add: read_text_char parse_process_char_def parse_add_char_def)
  also have "\<dots> = read_text \<lparr>pstate = IN_FIELD, pfields = fs, pfield = (f @ [c]) @ s\<rparr> t"
    by (rule Cons.IH [OF s Cons.prems(2) len(2)])
  finally show ?case by simp
qed

lemma quoted_body:
  assumes "CR \<notin> set s" and "t \<noteq> []"
    and "length f + length s \<le> field_limit"
  shows "read_text \<lparr>pstate = IN_QUOTED_FIELD, pfields = fs, pfield = f\<rparr> (double_quotes s @ t) =
         read_text \<lparr>pstate = IN_QUOTED_FIELD, pfields = fs, pfield = f @ s\<rparr> t"
  using assms
proof (induction s arbitrary: f)
  case Nil
  then show ?case by simp
next
  case (Cons c s)
  from Cons.prems have c: "c \<noteq> CR" and s: "CR \<notin> set s"
    and len: "length f < field_limit" "length (f @ [c]) + length s \<le> field_limit"
    by auto
  have rest: "double_quotes s @ t \<noteq> []"
    using Cons.prems(2) by simp
  have "read_text \<lparr>pstate = IN_QUOTED_FIELD, pfields = fs, pfield = f\<rparr> (double_quotes (c # s) @ t) =
        read_text \<lparr>pstate = IN_QUOTED_FIELD, pfields = fs, pfield = f @ [c]\<rparr> (double_quotes s @ t)"
  proof (cases "c = DQ")
    case True
    then show ?thesis
      using len rest
      by (simp add: read_text_char parse_process_char_def parse_add_char_def)
  next
    case False
    show ?thesis
    proof (cases "c = LF")
      case True
      then show ?thesis
        using len
        by (simp add: read_text_LF parse_process_char_def parse_add_char_def parse_process_eol_def)
    next
      case notLF: False
      then show ?thesis
        using False len rest
        by (simp add: read_text_char parse_process_char_def parse_add_char_def)
    qed
  qed
  also have "\<dots> = read_text \<lparr>pstate = IN_QUOTED_FIELD, pfields = fs, pfield = (f @ [c]) @ s\<rparr> t"
    by (rule Cons.IH [OF s Cons.prems(2) len(2)])
  finally show ?case by simp
qed

lemma field_limit_pos: "0 < field_limit"
  by (simp add: field_limit_def)

lemma written_field_then_comma:
  assumes "CR \<notin> set f" and "length f \<le> field_limit" and "t \<noteq> []"
    and "s = START_RECORD \<or> s = START_FIELD"
  shows "read_text \<lparr>pstate = s, pfields = fs, pfield = []\<rparr> (join_append (Some f) @ COMMA # t) =
         read_text \<lparr>pstate = START_FIELD, pfields = fs @ [f], pfield = []\<rparr> t"
proof (cases "list_ex needs_quoting f")
  case True
  have "read_text \<lparr>pstate = s, pfields = fs, pfield = []\<rparr> (join_append (Some f) @ COMMA # t) =
        read_text \<lparr>pstate = IN_QUOTED_FIELD, pfields = fs, pfield = []\<rparr>
          (double_quotes f @ DQ # COMMA # t)"
    using True assms(4)
    by (auto simp: join_append_def read_text_char parse_process_char_def start_field_def)
  also have "\<dots> = read_text \<lparr>pstate = IN_QUOTED_FIELD, pfields = fs, pfield = [] @ f\<rparr>
          (DQ # COMMA # t)"
    using assms(1,2) by (intro quoted_body) simp_all
  also have "\<dots> = read_text \<lparr>pstate = START_FIELD, pfields = fs @ [f], pfield = []\<rparr> t"
    using assms(3)
    by (simp add: read_text_char parse_process_char_def parse_save_field_def)
  finally show ?thesis .
next
  case False
  then have plain: "list_all (\<lambda>c. \<not> needs_quoting c) f"
    by (simp add: list_all_iff list_ex_iff)
  show ?thesis
  proof (cases f)
    case Nil
    then show ?thesis
      using assms(3,4)
      by (auto simp: join_append_def read_text_char parse_process_char_def start_field_def
          parse_save_field_def)
  next
    case (Cons c cs)
    with plain have c: "c \<noteq> LF" "c \<noteq> CR" "c \<noteq> COMMA" "c \<noteq> DQ"
      and cs: "list_all (\<lambda>c. \<not> needs_quoting c) cs"
      by (auto simp: needs_quoting_def)
    have "read_text \<lparr>pstate = s, pfields = fs, pfield = []\<rparr> (join_append (Some f) @ COMMA # t) =
          read_text \<lparr>pstate = IN_FIELD, pfields = fs, pfield = [c]\<rparr> (cs @ COMMA # t)"
      using False Cons c assms(4) field_limit_pos
      by (auto simp: join_append_def read_text_char parse_process_char_def start_field_def
          parse_add_char_def)
    also have "\<dots> = read_text \<lparr>pstate = IN_FIELD, pfields = fs, pfield = [c] @ cs\<rparr> (COMMA # t)"
      using cs assms(2) Cons by (intro unquoted_body) simp_all
    also have "\<dots> = read_text \<lparr>pstate = START_FIELD, pfields = fs @ [f], pfield = []\<rparr> t"
      using assms(3) Cons
      by (simp add: read_text_char parse_process_char_def parse_save_field_def)
    finally show ?thesis .
  qed
qed

lemma written_field_then_newline:
  assumes "CR \<notin> set f" and "length f \<le> field_limit"
  shows "read_text \<lparr>pstate = START_FIELD, pfields = fs, pfield = []\<rparr> (join_append (Some f) @ LF # t) =
         (case read_text parse_reset t of (rows, raised) \<Rightarrow> ((fs @ [f]) # rows, raised))"
proof (cases "list_ex needs_quoting f")
  case True
  have "read_text \<lparr>pstate = START_FIELD, pfields = fs, pfield = []\<rparr> (join_append (Some f) @ LF # t) =
        read_text \<lparr>pstate = IN_QUOTED_FIELD, pfields = fs, pfield = []\<rparr>
          (double_quotes f @ DQ # LF # t)"
    using True
    by (auto simp: join_append_def read_text_char parse_process_char_def start_field_def)
  also have "\<dots> = read_text \<lparr>pstate = IN_QUOTED_FIELD, pfields = fs, pfield = [] @ f\<rparr>
          (DQ # LF # t)"
    using assms(1,2) by (intro quoted_body) simp_all
  also have "\<dots> = (case read_text parse_reset t of (rows, raised) \<Rightarrow> ((fs @ [f]) # rows, raised))"
    by (simp add: read_text_char read_text_LF parse_process_char_def parse_save_field_def
        end_of_record_def parse_process_eol_def)
  finally show ?thesis .
next
  case False
  then have plain: "list_all (\<lambda>c. \<not> needs_quoting c) f"
    by (simp add: list_all_iff list_ex_iff)
  show ?thesis
  proof (cases f)
    case Nil
    then show ?thesis
      by (simp add: join_append_def read_text_LF parse_process_char_def start_field_def
          parse_save_field_def end_of_record_def parse_process_eol_def)
  next
    case (Cons c cs)
    with plain have c: "c \<noteq> LF" "c \<noteq> CR" "c \<noteq> COMMA" "c \<noteq> DQ"
      and cs: "list_all (\<lambda>c. \<not> needs_quoting c) cs"
      by (auto simp: needs_quoting_def)
    have "read_text \<lparr>pstate = START_FIELD, pfields = fs, pfield = []\<rparr> (join_append (Some f) @ LF # t) =
          read_text \<lparr>pstate = IN_FIELD, pfields = fs, pfield = [c]\<rparr> (cs @ LF # t)"
      using False Cons c field_limit_pos
      by (auto simp: join_append_def read_text_char parse_process_char_def start_field_def
          parse_add_char_def)
    also have "\<dots> = read_text \<lparr>pstate = IN_FIELD, pfields = fs, pfield = [c] @ cs\<rparr> (LF # t)"
      using cs assms(2) Cons by (intro unquoted_body) simp_all
    also have "\<dots> = (case read_text parse_reset t of (rows, raised) \<Rightarrow> ((fs @ [f]) # rows, raised))"
      using Cons
      by (simp add: read_text_LF parse_process_char_def parse_save_field_def
          end_of_record_def parse_process_eol_def)
    finally show ?thesis .
  qed
qed

lemma written_row:
  assumes "CR \<notin> set k" "length k \<le> field_limit" "CR \<notin> set v" "length v \<le> field_limit"
  shows "read_text parse_reset (join_append (Some k) @ COMMA # join_append (Some v) @ LF # t) =
         (case read_text parse_reset t of (rows, raised) \<Rightarrow> ([k, v] # rows, raised))"
proof -
  have "read_text parse_reset (join_append (Some k) @ COMMA # join_append (Some v) @ LF # t) =
        read_text \<lparr>pstate = START_FIELD, pfields = [] @ [k], pfield = []\<rparr>
          (join_append (Some v) @ LF # t)"
    unfolding parse_reset_def using assms(1,2)
    by (intro written_field_then_comma) simp_all
  also have "\<dots> = (case read_text parse_reset t of (rows, raised) \<Rightarrow> (([] @ [k] @ [v]) # rows, raised))"
    using written_field_then_newline [OF assms(3,4), of "[] @ [k]" t] by simp
  finally show ?thesis by simp
qed

subsection \<open>Trimming and newlines\<close>

lemma dropWhile_self: "xs = [] \<or> \<not> P (hd xs) \<Longrightarrow> dropWhile P xs = xs"
  by (cases xs) auto

lemma dropWhile_hd: "dropWhile P xs = [] \<or> \<not> P (hd (dropWhile P xs))"
  by (induction xs) auto

lemma strip_idem: "strip (strip s) = strip s"
proof -
  define x where "x = dropWhile isspace s"
  define y where "y = dropWhile isspace (rev x)"
  have strip: "strip s = rev y"
    by (simp add: strip_def x_def y_def)
  have y: "y = [] \<or> \<not> isspace (hd y)"
    unfolding y_def by (rule dropWhile_hd)
  have x: "x = [] \<or> \<not> isspace (hd x)"
    unfolding x_def by (rule dropWhile_hd)
  have "rev x = takeWhile isspace (rev x) @ y"
    by (simp add: y_def)
  then have "x = rev y @ rev (takeWhile isspace (rev x))"
    by (metis rev_append rev_rev_ident)
  then have "rev y = [] \<or> hd (rev y) = hd x"
    by (metis hd_append2)
  moreover have "x = [] \<Longrightarrow> y = []"
    by (simp add: y_def)
  ultimately have "rev y = [] \<or> \<not> isspace (hd (rev y))"
    using x by auto
  then have "dropWhile isspace (rev y) = rev y"
    by (rule dropWhile_self)
  moreover have "dropWhile isspace y = y"
    using y by (rule dropWhile_self)
  ultimately have "strip (rev y) = rev y"
    by (simp add: strip_def)
  then show ?thesis
    by (simp only: strip)
qed

lemma set_strip: "set (strip s) \<subseteq> set s"
proof -
  have "set (strip s) \<subseteq> set (dropWhile isspace s)"
    unfolding strip_def using set_dropWhileD by fastforce
  also have "\<dots> \<subseteq> set s"
    using set_dropWhileD by fastforce
  finally show ?thesis .
qed

lemma length_strip: "length (strip s) \<le> length s"
proof -
  have "length (strip s) \<le> length (dropWhile isspace s)"
    unfolding strip_def
    using length_dropWhile_le [of isspace "rev (dropWhile isspace s)"] by simp
  also have "\<dots> \<le> length s"
    by (rule length_dropWhile_le)
  finally show ?thesis .
qed

lemma universal_newlines_no_CR: "CR \<notin> set (universal_newlines t)"
  by (induction t rule: universal_newlines.induct) auto

lemma universal_newlines_Cons:
  "c \<noteq> CR \<Longrightarrow> universal_newlines (c # t) = c # universal_newlines t"
  by (cases t) auto

lemma universal_newlines_line:
  "CR \<notin> set s \<Longrightarrow> universal_newlines (s @ CR # LF # t) = s @ LF # universal_newlines t"
  by (induction s) (auto simp: universal_newlines_Cons)

lemma set_file_lines: "l \<in> set (file_lines t) \<Longrightarrow> set l \<subseteq> set t"
proof (induction t arbitrary: l)
  case Nil
  then show ?case by simp
next
  case (Cons c t)
  show ?case
  proof (cases "c = LF")
    case True
    with Cons show ?thesis by auto
  next
    case False
    show ?thesis
    proof (cases "file_lines t")
      case Nil
      with Cons.prems False show ?thesis by auto
    next
      case (Cons l' ls)
      then have "set l' \<subseteq> set t" "\<And>m. m \<in> set ls \<Longrightarrow> set m \<subseteq> set t"
        using Cons.IH by simp_all
      with Cons.prems False Cons show ?thesis by auto
    qed
  qed
qed

subsection \<open>A saved dict is loaded back\<close>

lemma set_double_quotes: "set (double_quotes s) \<subseteq> insert DQ (set s)"
  by (induction s) auto

lemma join_append_no_CR: "CR \<notin> set s \<Longrightarrow> CR \<notin> set (join_append (Some s))"
  using set_double_quotes [of s] by (auto simp: join_append_def)

lemma writerow_pair:
  "writerow [Some k, v] = join_append (Some k) @ COMMA # join_append v @ [CR, LF]"
  by (simp add: writerow_def)

lemma universal_newlines_rows:
  "list_all storable_entry d \<Longrightarrow>
   universal_newlines (concat (map (\<lambda>(key, val). writerow [Some key, val]) d)) =
     concat (map unix_row d)"
proof (induction d)
  case Nil
  then show ?case by simp
next
  case (Cons e d)
  obtain k v where e: "e = (k, Some v)" and k: "CR \<notin> set k" and v: "CR \<notin> set v"
    using Cons.prems by (cases e; cases "snd e") (auto simp: storable_def)
  have "CR \<notin> set (join_append (Some k) @ COMMA # join_append (Some v))"
    using join_append_no_CR [OF k] join_append_no_CR [OF v] by simp
  then have "universal_newlines
          ((join_append (Some k) @ COMMA # join_append (Some v)) @ CR # LF #
            concat (map (\<lambda>(key, val). writerow [Some key, val]) d)) =
        (join_append (Some k) @ COMMA # join_append (Some v)) @ LF #
          universal_newlines (concat (map (\<lambda>(key, val). writerow [Some key, val]) d))"
    by (rule universal_newlines_line)
  with Cons show ?case
    by (simp add: e writerow_pair)
qed

lemma universal_newlines_save_text:
  assumes "list_all storable_entry d"
  shows "universal_newlines (save_text d) =
           unix_row (''Element Name'', Some ''Locator'') @ concat (map unix_row d)"
proof -
  have "universal_newlines (''Element Name,Locator'' @ CR # LF #
          concat (map (\<lambda>(key, val). writerow [Some key, val]) d)) =
        ''Element Name,Locator'' @ LF #
          universal_newlines (concat (map (\<lambda>(key, val). writerow [Some key, val]) d))"
    by (rule universal_newlines_line) simp
  then show ?thesis
    using universal_newlines_rows [OF assms]
    by (simp add: save_text_def writerow_def join_append_def needs_quoting_def)
qed

lemma read_written_rows:
  "list_all storable_entry d \<Longrightarrow>
   read_text parse_reset (concat (map unix_row d)) = (map row_of d, False)"
proof (induction d)
  case Nil
  then show ?case by simp
next
  case (Cons e d)
  obtain k v where e: "e = (k, Some v)" and k: "CR \<notin> set k" "length k \<le> field_limit"
    and v: "CR \<notin> set v" "length v \<le> field_limit"
    using Cons.prems by (cases e; cases "snd e") (auto simp: storable_def)
  from Cons have "read_text parse_reset (concat (map unix_row d)) = (map row_of d, False)"
    by simp
  then show ?case
    using written_row [OF k v, of "concat (map unix_row d)"] by (simp add: e)
qed

lemma csv_reader_save_text:
  assumes "list_all storable_entry d"
  shows "csv_reader (save_text d) = ([''Element Name'', ''Locator''] # map row_of d, False)"
proof -
  have "read_text parse_reset
          (unix_row (''Element Name'', Some ''Locator'') @ concat (map unix_row d)) =
        ([''Element Name'', ''Locator''] # map row_of d, False)"
    using written_row [of "''Element Name''" "''Locator''" "concat (map unix_row d)"]
    by (simp add: field_limit_def read_written_rows [OF assms])
  then show ?thesis
    unfolding csv_reader_def universal_newlines_save_text [OF assms] read_text_def .
qed

lemma update_fresh: "k \<notin> fst ` set al \<Longrightarrow> AList.update k v al = al @ [(k, v)]"
  by (induction al) auto

lemma fold_update_distinct:
  "distinct (map fst (acc @ d)) \<Longrightarrow>
   fold (\<lambda>(k, v). AList.update k v) d acc = acc @ d"
proof (induction d arbitrary: acc)
  case Nil
  then show ?case by simp
next
  case (Cons e d)
  obtain k v where e: "e = (k, v)"
    by (cases e)
  from Cons.prems have fresh: "k \<notin> fst ` set acc" and rest: "distinct (map fst ((acc @ [(k, v)]) @ d))"
    by (auto simp: e)
  show ?case
    using Cons.IH [OF rest] by (simp add: e update_fresh [OF fresh])
qed

lemma load_written_rows:
  "list_all storable_entry d \<Longrightarrow>
   load_rows [''Element Name'', ''Locator''] (map row_of d) acc =
     fold (\<lambda>(k, v). AList.update k v) d acc"
proof (induction d arbitrary: acc)
  case Nil
  then show ?case by simp
next
  case (Cons e d)
  obtain k v where e: "e = (k, Some v)" and k: "strip k = k" "k \<noteq> []"
    and v: "strip v = v" "v \<noteq> []"
    using Cons.prems by (cases e; cases "snd e") (auto simp: storable_def)
  have len: "2 \<le> length [k, v]"
    by simp
  from Cons show ?case
    using row_get_standard_header [OF len] by (simp add: e k v)
qed

lemma parse_locators_save_text:
  assumes "storable_dict d"
  shows "parse_locators (save_text d) = d"
proof -
  from assms have entries: "list_all storable_entry d" and keys: "distinct (map fst ([] @ d))"
    by (simp_all add: storable_dict_def)
  show ?thesis
    using fold_update_distinct [OF keys]
    by (simp add: parse_locators_def csv_reader_save_text [OF entries]
        load_written_rows [OF entries])
qed

subsection \<open>What a load can return\<close>

lemma clean_Nil [simp]: "clean []"
  by (simp add: clean_def)

lemma parse_add_char_clean:
  "reader_clean r \<Longrightarrow> c \<noteq> CR \<Longrightarrow> parse_add_char r c = Some r' \<Longrightarrow>
   reader_clean r' \<and> pstate r' = pstate r"
  by (auto simp: parse_add_char_def reader_clean_def clean_def split: if_splits)

lemma parse_save_field_clean: "reader_clean r \<Longrightarrow> reader_clean (parse_save_field r)"
  by (simp add: parse_save_field_def reader_clean_def)

lemma reader_clean_pstate [simp]: "reader_clean (r\<lparr>pstate := s\<rparr>) = reader_clean r"
  by (simp add: reader_clean_def)

lemma parse_process_char_clean:
  assumes "reader_clean r" and "c \<noteq> CR" and "parse_process_char r c = Some r'"
  shows "reader_clean r'"
  using assms parse_add_char_clean [OF assms(1,2)] parse_save_field_clean [OF assms(1)]
  by (cases "pstate r")
    (auto simp: parse_process_char_def start_field_def end_of_record_def split: if_splits)

lemma parse_process_eol_clean: "reader_clean r \<Longrightarrow> reader_clean (parse_process_eol r)"
  using parse_save_field_clean [of r]
  by (cases "pstate r") (auto simp: parse_process_eol_def end_of_record_def)

lemma feed_clean:
  "reader_clean r \<Longrightarrow> CR \<notin> set l \<Longrightarrow> feed r l = Some r' \<Longrightarrow> reader_clean r'"
proof (induction l arbitrary: r)
  case Nil
  then show ?case by (auto simp: parse_process_eol_clean)
next
  case (Cons c l)
  then obtain r1 where r1: "parse_process_char r c = Some r1" and rest: "feed r1 l = Some r'"
    by (auto split: option.splits)
  from Cons.prems have "c \<noteq> CR" "CR \<notin> set l"
    by auto
  with Cons.IH [OF parse_process_char_clean [OF Cons.prems(1) _ r1] _ rest] show ?case
    by simp
qed

lemma read_rows_clean:
  assumes "reader_clean r" and "\<And>l. l \<in> set ls \<Longrightarrow> CR \<notin> set l"
    and "row \<in> set (fst (read_rows r ls))"
  shows "list_all clean row"
  using assms
proof (induction ls arbitrary: r)
  case Nil
  then show ?case
    using parse_save_field_clean [of r] by (auto simp: reader_clean_def split: if_splits)
next
  case (Cons l ls)
  show ?case
  proof (cases "feed r l")
    case None
    with Cons.prems(3) show ?thesis by simp
  next
    case (Some r1)
    have r1: "reader_clean r1"
      using feed_clean [OF Cons.prems(1) _ Some] Cons.prems(2) by simp
    have reset: "reader_clean parse_reset"
      by (simp add: reader_clean_def parse_reset_def)
    show ?thesis
    proof (cases "pstate r1 = START_RECORD")
      case True
      with Some Cons.prems(3) have "row = pfields r1 \<or> row \<in> set (fst (read_rows parse_reset ls))"
        by (auto split: prod.splits)
      then show ?thesis
        using r1 Cons.IH [OF reset] Cons.prems(2) by (auto simp: reader_clean_def)
    next
      case False
      with Some Cons.prems(3) have "row \<in> set (fst (read_rows r1 ls))"
        by simp
      then show ?thesis
        using Cons.IH [OF r1] Cons.prems(2) by auto
    qed
  qed
qed

lemma csv_reader_clean:
  assumes "row \<in> set (fst (csv_reader text))"
  shows "list_all clean row"
proof (rule read_rows_clean)
  show "reader_clean parse_reset"
    by (simp add: reader_clean_def parse_reset_def)
  show "row \<in> set (fst (read_rows parse_reset (file_lines (universal_newlines text))))"
    using assms by (simp add: csv_reader_def)
  show "CR \<notin> set l" if line: "l \<in> set (file_lines (universal_newlines text))" for l
    using set_file_lines [OF line] universal_newlines_no_CR [of "text"] by auto
qed

lemma set_update_subset: "set (AList.update k v al) \<subseteq> insert (k, v) (set al)"
  by (induction al) auto

lemma dict_row_values:
  assumes "(k, Some x) \<in> set (dict_row fieldnames row)"
  shows "x \<in> set row"
proof -
  have zipped: "(k, Some x) \<in> set (fold (\<lambda>(k, v) d. AList.update k (Some v) d) ps d) \<Longrightarrow>
        (k, Some x) \<in> set d \<or> x \<in> snd ` set ps" for ps d
  proof (induction ps arbitrary: d)
    case Nil
    then show ?case by simp
  next
    case (Cons p ps)
    obtain a b where p: "p = (a, b)" by (cases p)
    from Cons.IH [of "AList.update a (Some b) d"] Cons.prems
    have "(k, Some x) \<in> set (AList.update a (Some b) d) \<or> x \<in> snd ` set ps"
      by (simp add: p)
    then show ?case
      using set_update_subset [of a "Some b" d] by (auto simp: p)
  qed
  have missing: "(k, Some x) \<in> set (fold (\<lambda>k d. AList.update k None d) ks d) \<Longrightarrow>
        (k, Some x) \<in> set d" for ks d
  proof (induction ks arbitrary: d)
    case Nil
    then show ?case by simp
  next
    case (Cons a ks)
    from Cons.IH [of "AList.update a None d"] Cons.prems
    have "(k, Some x) \<in> set (AList.update a None d)"
      by simp
    then show ?case
      using set_update_subset [of a None d] by auto
  qed
  from assms have "(k, Some x) \<in> set (fold (\<lambda>(k, v) d. AList.update k (Some v) d) (zip fieldnames row) [])"
    unfolding dict_row_def by (rule missing)
  then have "x \<in> snd ` set (zip fieldnames row)"
    using zipped by fastforce
  then show ?thesis
    by (auto dest: set_zip_rightD)
qed

lemma row_get_value:
  assumes "row_get (dict_row fieldnames row) name = Some x"
  shows "x = [] \<or> x \<in> set row"
proof (cases "map_of (dict_row fieldnames row) name")
  case None
  with assms show ?thesis by (simp add: row_get_def)
next
  case (Some v)
  with assms have "map_of (dict_row fieldnames row) name = Some (Some x)"
    by (simp add: row_get_def)
  then have "(name, Some x) \<in> set (dict_row fieldnames row)"
    by (rule map_of_SomeD)
  then show ?thesis
    using dict_row_values by blast
qed

lemma storable_strip:
  assumes "clean s" and "strip s \<noteq> []"
  shows "storable (strip s)"
  using assms set_strip [of s] length_strip [of s]
  by (auto simp: storable_def clean_def strip_idem)

lemma storable_dict_update:
  assumes "storable_dict d" and "storable k" and "storable v"
  shows "storable_dict (AList.update k (Some v) d)"
proof -
  have "list_all storable_entry (AList.update k (Some v) d)"
    using assms set_update_subset [of k "Some v" d]
    by (auto simp: storable_dict_def list_all_iff)
  with assms(1) show ?thesis
    by (simp add: storable_dict_def distinct_update)
qed

lemma load_rows_storable:
  assumes "storable_dict locs" and "\<And>row. row \<in> set rows \<Longrightarrow> list_all clean row"
  shows "storable_dict (load_rows fieldnames rows locs)"
  using assms
proof (induction rows arbitrary: locs)
  case Nil
  then show ?case by simp
next
  case (Cons row rows)
  have rest: "\<And>r. r \<in> set rows \<Longrightarrow> list_all clean r"
    using Cons.prems(2) by simp
  have row: "list_all clean row"
    using Cons.prems(2) by simp
  show ?case
  proof (cases "row = []")
    case True
    then show ?thesis
      using Cons.IH [OF Cons.prems(1) rest] by simp
  next
    case False
    show ?thesis
    proof (cases "row_get (dict_row fieldnames row) ''Element Name''")
      case None
      with False Cons.prems(1) show ?thesis by simp
    next
      case k: (Some k)
      show ?thesis
      proof (cases "row_get (dict_row fieldnames row) ''Locator''")
        case None
        with False k Cons.prems(1) show ?thesis by simp
      next
        case v: (Some v)
        have "clean k" "clean v"
          using row_get_value [OF k] row_get_value [OF v] row
          by (auto simp: list_all_iff)
        then have "strip k \<noteq> [] \<and> strip v \<noteq> [] \<Longrightarrow>
                   storable_dict (AList.update (strip k) (Some (strip v)) locs)"
          using storable_dict_update [OF Cons.prems(1)] storable_strip by blast
        with False k v show ?thesis
          using Cons.IH [OF _ rest] Cons.prems(1) by (auto simp: Let_def)
      qed
    qed
  qed
qed

lemma parse_locators_storable: "storable_dict (parse_locators text)"
proof (cases "fst (csv_reader text)")
  case Nil
  then show ?thesis
    by (simp add: parse_locators_def storable_dict_def)
next
  case (Cons fieldnames rows)
  have "storable_dict (load_rows fieldnames rows [])"
  proof (rule load_rows_storable)
    show "storable_dict []"
      by (simp add: storable_dict_def)
    show "list_all clean row" if member: "row \<in> set rows" for row
      using member csv_reader_clean [of row "text"] Cons by simp
  qed
  with Cons show ?thesis
    by (simp add: parse_locators_def)
qed


subsection \<open>Update, invalidate, resolve\<close>

lemma load_csv_storable: "storable_dict (fst (load_csv f w))"
proof (cases "files w (csv_file f)")
  case None
  then show ?thesis
    by (simp add: load_csv_fst storable_dict_def)
next
  case (Some contents)
  then show ?thesis
    by (simp add: load_csv_fst parse_locators_storable)
qed

lemma dict_update_Nil: "distinct (map fst e) \<Longrightarrow> dict_update [] e = e"
  using fold_update_distinct [of "[]" e] by (simp add: dict_update_def)

lemma fresh_lookup_after_update:
  assumes "storable_dict d" and "csv_file file_name \<notin> read_only w"
    and "fst (load_csv file_name w) = old"
    and "d = AList.update key value old"
  shows "locators (snd (get_values_from_csv element file_name
            (invalidate (update_locator key value file_name w)))) = d"
proof -
  let ?w = "invalidate (update_locator key value file_name w)"
  have "files ?w (csv_file file_name) = Some (save_text d)"
    using assms(2-4) by (simp add: update_locator_fields)
  then have "fst (load_csv file_name ?w) = d"
    by (simp add: load_csv_fst parse_locators_save_text [OF assms(1)])
  moreover have "distinct (map fst d)"
    using assms(1) by (simp add: storable_dict_def)
  ultimately show ?thesis
    by (simp add: get_values_from_csv_locators dict_update_Nil)
qed

lemma update_then_fresh_lookup:
  assumes "storable key" and "storable selector"
    and "csv_file file_name \<notin> read_only w"
  shows "fst (get_values_from_csv key file_name
            (invalidate (update_locator key (Some selector) file_name w))) = Some selector"
proof -
  let ?d = "AList.update key (Some selector) (fst (load_csv file_name w))"
  have "storable_dict ?d"
    using load_csv_storable assms(1,2) by (rule storable_dict_update)
  then have "locators (snd (get_values_from_csv key file_name
            (invalidate (update_locator key (Some selector) file_name w)))) = ?d"
    using assms(3) by (rule fresh_lookup_after_update) simp_all
  then show ?thesis
    by (simp add: get_values_from_csv_fst update_conv')
qed

lemma storable_login_candidate: "storable login_candidate"
  by (simp add: storable_def login_candidate_def strip_def isspace_def field_limit_def)

lemma save_cr_selector:
  "save_text [(''txtUsername'', Some ''#user''), (''k'', Some cr_selector)] =
     ''Element Name,Locator'' @ [CR, LF] @ ''txtUsername,#user'' @ [CR, LF]
       @ ''k,'' @ [DQ] @ ''a'' @ [CR] @ ''b'' @ [DQ] @ [CR, LF]"
  by (simp add: save_text_def writerow_def join_append_def needs_quoting_def cr_selector_def)

lemma parse_cr_selector:
  "parse_locators (''Element Name,Locator'' @ [CR, LF] @ ''txtUsername,#user'' @ [CR, LF]
       @ ''k,'' @ [DQ] @ ''a'' @ [CR] @ ''b'' @ [DQ] @ [CR, LF]) =
     [(''txtUsername'', Some ''#user''), (''k'', Some (''a'' @ [LF] @ ''b''))]"
proof -
  have lines: "file_lines (universal_newlines
        (''Element Name,Locator'' @ [CR, LF] @ ''txtUsername,#user'' @ [CR, LF]
           @ ''k,'' @ [DQ] @ ''a'' @ [CR] @ ''b'' @ [DQ] @ [CR, LF])) =
        [''Element Name,Locator'' @ [LF], ''txtUsername,#user'' @ [LF],
         ''k,'' @ [DQ] @ ''a'' @ [LF], ''b'' @ [DQ] @ [LF]]"
    by simp
  have "csv_reader (''Element Name,Locator'' @ [CR, LF] @ ''txtUsername,#user'' @ [CR, LF]
           @ ''k,'' @ [DQ] @ ''a'' @ [CR] @ ''b'' @ [DQ] @ [CR, LF]) =
        ([[''Element Name'', ''Locator''], [''txtUsername'', ''#user''],
          [''k'', ''a'' @ [LF] @ ''b'']], False)"
    unfolding csv_reader_def lines by (simp add: reader_simps)
  then show ?thesis
    by (simp add: parse_locators_def load_simps)
qed

section \<open>The claims\<close>

text \<open>
  Claim C1, at a failing input. \<^verbatim>\<open>Login_Elements.csv\<close> holds \<^verbatim>\<open>txtUsername,#user\<close>,
  the probe fails and the language model replies \<^verbatim>\<open>No locator found\<close>, a text with
  no double-quoted substring. The resolver returns \<^verbatim>\<open>None\<close>, as the claim says, but
  it has called \<^verbatim>\<open>update_locator\<close> with the \<^verbatim>\<open>None\<close> of the failed extraction: the
  file is rewritten with an empty selector in the row of the key, and a fresh load
  after invalidation no longer finds the key.
\<close>

theorem C1_reply_without_quotes_overwrites_the_file:
  "extract_xpath_from_response plain_reply = None
   \<and> fst (verify_and_get_locators_using_ai page_missing (answers plain_reply) ''txtUsername''
            ''Login_Elements.csv'' login_world) = None
   \<and> files login_world (csv_file ''Login_Elements.csv'') =
        Some (''Element Name,Locator'' @ [CR, LF] @ ''txtUsername,#user'' @ [CR, LF])
   \<and> files (snd (verify_and_get_locators_using_ai page_missing (answers plain_reply)
            ''txtUsername'' ''Login_Elements.csv'' login_world)) (csv_file ''Login_Elements.csv'') =
        Some (''Element Name,Locator'' @ [CR, LF] @ ''txtUsername,'' @ [CR, LF])"
proof -
  have no_quote: "extract_xpath_from_response plain_reply = None"
    by (simp add: plain_reply_def)
  have probe: "\<not> wait_for_selector page_missing ''#user'' \<or> is_visible page_missing ''#user'' = None"
    and page_html: "content page_missing = Some ''<html></html>''"
    by (simp_all add: page_missing_def)
  have "strip plain_reply = plain_reply"
    by (simp add: plain_reply_def strip_def isspace_def)
  then have reply: "generate_response_new (answers plain_reply)
                 (prompt_for ''#user'' ''<html></html>'') = (Some plain_reply, [ChatCompletion])"
    by (rule generate_answers)
  have not_empty: "plain_reply \<noteq> []" and selector: "''#user'' \<noteq> []"
    by (simp_all add: plain_reply_def)
  have stored: "fst (load_csv ''Login_Elements.csv'' login_world) =
                  [(''txtUsername'', Some ''#user'')]"
    by (simp add: load_csv_fst login_world_def parse_login_csv)
  have saved: "save_text [(''txtUsername'', None)] =
                 ''Element Name,Locator'' @ [CR, LF] @ ''txtUsername,'' @ [CR, LF]"
    by (simp add: save_text_def writerow_def join_append_def needs_quoting_def)
  have before: "files login_world (csv_file ''Login_Elements.csv'') =
        Some (''Element Name,Locator'' @ [CR, LF] @ ''txtUsername,#user'' @ [CR, LF])"
    by (simp add: login_world_def login_csv_def)
  have writable: "csv_file ''Login_Elements.csv'' \<notin> read_only login_world"
    by (simp add: login_world_def)
  have after: "verify_and_get_locators_using_ai page_missing (answers plain_reply) ''txtUsername''
            ''Login_Elements.csv'' login_world =
          (None, update_locator ''txtUsername'' None ''Login_Elements.csv''
             (emit [PageContent, ChatCompletion]
               (emit [WaitForSelector ''#user'']
                 (login_world\<lparr>locators := [(''txtUsername'', Some ''#user'')],
                    loaded_files := {''Login_Elements.csv''},
                    trace := [OpenRead (csv_file ''Login_Elements.csv'')]\<rparr>))))"
    unfolding verify_repair_response [OF get_login selector probe page_html reply not_empty] no_quote
    by (simp add: page_missing_def)
  have "files (snd (verify_and_get_locators_using_ai page_missing (answers plain_reply)
            ''txtUsername'' ''Login_Elements.csv'' login_world)) (csv_file ''Login_Elements.csv'') =
        Some (save_text [(''txtUsername'', None)])"
    unfolding after using writable
    by (simp add: update_locator_fields load_csv_fst login_world_def parse_login_csv)
  with no_quote before after show ?thesis
    by (simp add: saved)
qed

text \<open>
  Claim C2, at a failing input. Two source files are resolved, so the cache holds
  \<^verbatim>\<open>txtUsername\<close> from \<^verbatim>\<open>Login_Elements.csv\<close> and \<^verbatim>\<open>btnHome\<close> from
  \<^verbatim>\<open>Home_Elements.csv\<close>. Then \<^verbatim>\<open>update_locator\<close> stores a new selector for
  \<^verbatim>\<open>txtUsername\<close>. Its first statement replaces the whole cache by the rows of
  \<^verbatim>\<open>Login_Elements.csv\<close>: the entry of \<^verbatim>\<open>btnHome\<close> is gone although nobody invalidated
  the cache, and since \<^verbatim>\<open>Home_Elements.csv\<close> still counts as loaded, the next lookup
  of \<^verbatim>\<open>btnHome\<close> returns \<^verbatim>\<open>None\<close> while the file still holds its row.
\<close>

theorem C2_update_locator_drops_entries_of_other_files:
  "map_of (locators (resolve_all [(''txtUsername'', ''Login_Elements.csv''),
                                   (''btnHome'', ''Home_Elements.csv'')] two_files_world))
     ''btnHome'' = Some (Some ''#home'')
   \<and> map_of (locators (update_locator ''txtUsername'' (Some ''#username-input'')
                ''Login_Elements.csv''
                (resolve_all [(''txtUsername'', ''Login_Elements.csv''),
                              (''btnHome'', ''Home_Elements.csv'')] two_files_world)))
       ''btnHome'' = None
   \<and> fst (get_values_from_csv ''btnHome'' ''Home_Elements.csv''
            (update_locator ''txtUsername'' (Some ''#username-input'') ''Login_Elements.csv''
               (resolve_all [(''txtUsername'', ''Login_Elements.csv''),
                             (''btnHome'', ''Home_Elements.csv'')] two_files_world))) = None
   \<and> files (update_locator ''txtUsername'' (Some ''#username-input'') ''Login_Elements.csv''
               (resolve_all [(''txtUsername'', ''Login_Elements.csv''),
                             (''btnHome'', ''Home_Elements.csv'')] two_files_world))
        (csv_file ''Home_Elements.csv'') =
       Some (''Element Name,Locator'' @ [CR, LF] @ ''btnHome,#home'' @ [CR, LF])"
proof -
  define w1 where "w1 = snd (get_values_from_csv ''txtUsername'' ''Login_Elements.csv'' two_files_world)"
  define w2 where "w2 = snd (get_values_from_csv ''btnHome'' ''Home_Elements.csv'' w1)"
  define w3 where "w3 = update_locator ''txtUsername'' (Some ''#username-input'') ''Login_Elements.csv'' w2"
  have run: "resolve_all [(''txtUsername'', ''Login_Elements.csv''),
                          (''btnHome'', ''Home_Elements.csv'')] two_files_world = w2"
    by (simp add: w1_def w2_def)
  have w1: "locators w1 = [(''txtUsername'', Some ''#user'')]"
    "loaded_files w1 = {''Login_Elements.csv''}"
    "files w1 = files two_files_world" "read_only w1 = {}"
    by (simp_all add: w1_def get_values_from_csv_locators get_values_from_csv_loaded_files
        two_files_world_fields load_csv_fst parse_login_csv dict_update_def)
  have w2: "locators w2 = [(''txtUsername'', Some ''#user''), (''btnHome'', Some ''#home'')]"
    "loaded_files w2 = {''Home_Elements.csv'', ''Login_Elements.csv''}"
    "files w2 = files two_files_world" "read_only w2 = {}"
    by (simp_all add: w2_def get_values_from_csv_locators get_values_from_csv_loaded_files w1
        two_files_world_fields load_csv_fst parse_home_csv dict_update_def)
  have w3: "locators w3 = [(''txtUsername'', Some ''#username-input'')]"
    "loaded_files w3 = {''Home_Elements.csv'', ''Login_Elements.csv''}"
    by (simp_all add: w3_def update_locator_fields w2 two_files_world_fields load_csv_fst
        parse_login_csv)
  have lookup: "fst (get_values_from_csv ''btnHome'' ''Home_Elements.csv'' w3) = None"
    by (simp add: get_values_from_csv_loaded w3)
  have home: "files w3 (csv_file ''Home_Elements.csv'') =
       Some (''Element Name,Locator'' @ [CR, LF] @ ''btnHome,#home'' @ [CR, LF])"
    by (simp add: w3_def update_locator_fields w2 two_files_world_fields home_csv_def)
  show ?thesis
    unfolding run w3_def [symmetric] using lookup home by (simp add: w2 w3)
qed

text \<open>
  Claim C3. The round trip fails for a selector that holds a carriage return. The
  pair \<^verbatim>\<open>k\<close> and \<^const>\<open>cr_selector\<close> is valid in the sense of the claim: both are
  non-empty and \<^verbatim>\<open>.strip()\<close> changes neither. \<^verbatim>\<open>update_locator\<close> persists the pair:
  \<^verbatim>\<open>_save_locators\<close> opens the file with \<^verbatim>\<open>newline=''\<close>, the writer quotes the
  selector and the CR reaches the file as it is. \<^verbatim>\<open>_load_csv\<close> opens the same file
  without \<^verbatim>\<open>newline=''\<close>, the text mode turns the CR into LF, and after an
  invalidation of the cache the lookup returns \<^verbatim>\<open>a\<close>, LF, \<^verbatim>\<open>b\<close>: not the selector
  that was stored.
\<close>

theorem C3_carriage_return_is_read_back_as_line_feed:
  "''k'' \<noteq> [] \<and> strip ''k'' = ''k''
   \<and> cr_selector \<noteq> [] \<and> strip cr_selector = cr_selector
   \<and> cr_selector = ''a'' @ [CR] @ ''b''
   \<and> csv_file ''Login_Elements.csv'' \<notin> read_only login_world
   \<and> files (update_locator ''k'' (Some cr_selector) ''Login_Elements.csv'' login_world)
        (csv_file ''Login_Elements.csv'') =
       Some (''Element Name,Locator'' @ [CR, LF] @ ''txtUsername,#user'' @ [CR, LF]
               @ ''k,'' @ [DQ] @ ''a'' @ [CR] @ ''b'' @ [DQ] @ [CR, LF])
   \<and> fst (get_values_from_csv ''k'' ''Login_Elements.csv''
            (invalidate (update_locator ''k'' (Some cr_selector) ''Login_Elements.csv''
               login_world))) = Some (''a'' @ [LF] @ ''b'')"
proof -
  define w where "w = update_locator ''k'' (Some cr_selector) ''Login_Elements.csv'' login_world"
  have valid: "strip ''k'' = ''k''" "strip cr_selector = cr_selector" "cr_selector \<noteq> []"
    by (simp_all add: strip_def isspace_def cr_selector_def)
  have writable: "csv_file ''Login_Elements.csv'' \<notin> read_only login_world"
    by (simp add: login_world_def)
  have stored: "fst (load_csv ''Login_Elements.csv'' login_world) =
                  [(''txtUsername'', Some ''#user'')]"
    by (simp add: load_csv_fst login_world_def parse_login_csv)
  have saved: "files w (csv_file ''Login_Elements.csv'') =
       Some (''Element Name,Locator'' @ [CR, LF] @ ''txtUsername,#user'' @ [CR, LF]
               @ ''k,'' @ [DQ] @ ''a'' @ [CR] @ ''b'' @ [DQ] @ [CR, LF])"
    unfolding w_def using writable
    by (simp add: update_locator_fields stored save_cr_selector [simplified])
  then have "fst (load_csv ''Login_Elements.csv'' (invalidate w)) =
          [(''txtUsername'', Some ''#user''), (''k'', Some (''a'' @ [LF] @ ''b''))]"
    using parse_cr_selector by (simp add: load_csv_fst)
  then have "fst (get_values_from_csv ''k'' ''Login_Elements.csv'' (invalidate w)) =
          Some (''a'' @ [LF] @ ''b'')"
    by (simp add: get_values_from_csv_fst get_values_from_csv_locators dict_update_def)
  with valid writable saved show ?thesis
    unfolding w_def by (simp add: cr_selector_def)
qed

text \<open>
  Claim C4. The probe of the resolved selector fails (\<^verbatim>\<open>wait_for_selector\<close> or
  \<^verbatim>\<open>is_visible\<close> raises), the page content is read, and the language-model call
  returns the text \<^verbatim>\<open>Use locator = "//div[@id='login']"\<close>. Then the first
  double-quoted substring \<^verbatim>\<open>//div[@id='login']\<close> is extracted as the candidate and
  returned to the caller, and \<^const>\<open>update_locator\<close> has stored it for the key:
  the cache maps the key to the candidate, and the source file (when it can be
  written) holds the rows of the file as reloaded, with the row of the key set to
  the candidate. When the key is one that a source file can hold
  (\<^const>\<open>storable\<close>), a lookup of the key after an invalidation of the cache
  reads the candidate back from the file.
\<close>

theorem C4_quoted_reply_is_persisted_and_returned:
  assumes "get_values_from_csv element file_name w = (Some locator, w1)"
    and "locator \<noteq> []"
    and "\<not> wait_for_selector pg locator \<or> is_visible pg locator = None"
    and "content pg = Some html"
    and "fst (generate_response_new ai (prompt_for locator html)) = Some login_reply"
    and "csv_file file_name \<notin> read_only w"
  shows "extract_xpath_from_response login_reply = Some login_candidate
       \<and> fst (verify_and_get_locators_using_ai pg ai element file_name w) = Some login_candidate
       \<and> map_of (locators (snd (verify_and_get_locators_using_ai pg ai element file_name w)))
           element = Some (Some login_candidate)
       \<and> files (snd (verify_and_get_locators_using_ai pg ai element file_name w))
           (csv_file file_name) =
           Some (save_text (AList.update element (Some login_candidate)
                   (fst (load_csv file_name w))))
       \<and> (storable element \<longrightarrow>
            fst (get_values_from_csv element file_name
                  (invalidate (snd (verify_and_get_locators_using_ai pg ai element file_name w))))
              = Some login_candidate)"
proof -
  let ?probes = "if wait_for_selector pg locator
                 then [WaitForSelector locator, IsVisible locator]
                 else [WaitForSelector locator]"
  obtain evs where gen: "generate_response_new ai (prompt_for locator html) = (Some login_reply, evs)"
    using assms(5) by (cases "generate_response_new ai (prompt_for locator html)") simp
  have w1: "w1 = snd (get_values_from_csv element file_name w)"
    using assms(1) by simp
  have res: "verify_and_get_locators_using_ai pg ai element file_name w =
           (Some login_candidate,
            update_locator element (Some login_candidate) file_name
              (emit (PageContent # evs) (emit ?probes w1)))"
    unfolding verify_probe_fails [OF assms(1-3)]
      ai_correction_response [OF assms(4) gen login_reply_not_empty] extract_login_reply
    by (rule refl)
  have "fst (load_csv file_name w1) = fst (load_csv file_name w)"
    by (simp add: w1 load_csv_fst)
  moreover have unchanged: "read_only w1 = read_only w"
    by (simp add: w1)
  moreover have "fst (get_values_from_csv element file_name
            (invalidate (update_locator element (Some login_candidate) file_name
               (emit (PageContent # evs) (emit ?probes w1))))) = Some login_candidate"
    if "storable element"
    using that storable_login_candidate
    by (rule update_then_fresh_lookup) (simp add: unchanged assms(6))
  ultimately show ?thesis
    unfolding res using assms(6)
    by (simp add: update_locator_fields extract_login_reply update_conv')
qed

theorem C4_witness:
  "fst (verify_and_get_locators_using_ai page_missing (answers login_reply) ''txtUsername''
          ''Login_Elements.csv'' login_world) = Some login_candidate
   \<and> files (snd (verify_and_get_locators_using_ai page_missing (answers login_reply)
          ''txtUsername'' ''Login_Elements.csv'' login_world)) (csv_file ''Login_Elements.csv'') =
       Some (''Element Name,Locator'' @ [CR, LF] @ ''txtUsername,'' @ login_candidate @ [CR, LF])
   \<and> fst (get_values_from_csv ''txtUsername'' ''Login_Elements.csv''
          (invalidate (snd (verify_and_get_locators_using_ai page_missing (answers login_reply)
             ''txtUsername'' ''Login_Elements.csv'' login_world)))) = Some login_candidate"
proof -
  have writable: "csv_file ''Login_Elements.csv'' \<notin> read_only login_world"
    by (simp add: login_world_def)
  have key: "storable ''txtUsername''"
    by (simp add: storable_def strip_def isspace_def field_limit_def)
  have probe: "\<not> wait_for_selector page_missing ''#user'' \<or> is_visible page_missing ''#user'' = None"
    and page_html: "content page_missing = Some ''<html></html>''"
    by (simp_all add: page_missing_def)
  have reply: "fst (generate_response_new (answers login_reply)
                 (prompt_for ''#user'' ''<html></html>'')) = Some login_reply"
    by (simp add: generate_answers strip_login_reply)
  have stored: "fst (load_csv ''Login_Elements.csv'' login_world) =
                  [(''txtUsername'', Some ''#user'')]"
    by (simp add: load_csv_fst login_world_def parse_login_csv)
  from C4_quoted_reply_is_persisted_and_returned
      [where ai = "answers login_reply" and pg = page_missing,
       OF get_login _ probe page_html reply writable] key
  show ?thesis
    by (simp add: stored save_login_candidate)
qed

text \<open>
  Claim C5. For every source file and every sequence of lookups within one cache
  lifetime, the file is opened for reading at most once: once when it was not loaded
  before and the sequence asks for it, otherwise never. A lookup against a file that
  is not in the loaded set opens it, once, and marks it loaded; a lookup against a
  loaded file answers from the cache and leaves the world as it is.
\<close>

theorem C5_source_file_loaded_at_most_once:
  "count_list (new_events w (resolve_all calls w)) (OpenRead (csv_file file_name)) =
     (if file_name \<in> loaded_files w \<or> file_name \<notin> snd ` set calls then 0 else 1)
   \<and> (file_name \<notin> loaded_files w \<longrightarrow>
        new_events w (snd (get_values_from_csv element file_name w)) =
          [OpenRead (csv_file file_name)]
        \<and> file_name \<in> loaded_files (snd (get_values_from_csv element file_name w)))
   \<and> (file_name \<in> loaded_files w \<longrightarrow>
        get_values_from_csv element file_name w =
          (case map_of (locators w) element of None \<Rightarrow> None | Some v \<Rightarrow> v, w))"
proof -
  have "new_events w (resolve_all calls w) = reads_of calls (loaded_files w)"
    by (rule new_events_append) (rule resolve_all_trace)
  then show ?thesis
    by (simp add: count_reads_of new_events_get_values_from_csv
        get_values_from_csv_loaded_files get_values_from_csv_loaded)
qed

theorem C5_witness:
  "count_list
     (new_events login_world
        (resolve_all [(''txtUsername'', ''Login_Elements.csv''),
                      (''btnMissing'', ''Login_Elements.csv''),
                      (''txtUsername'', ''Login_Elements.csv'')] login_world))
     (OpenRead (csv_file ''Login_Elements.csv'')) = 1
   \<and> new_events login_world
        (snd (get_values_from_csv ''txtUsername'' ''Login_Elements.csv'' login_world)) =
       [OpenRead (csv_file ''Login_Elements.csv'')]"
proof -
  have not_loaded: "''Login_Elements.csv'' \<notin> loaded_files login_world"
    by (simp add: login_world_def)
  from C5_source_file_loaded_at_most_once
      [of login_world
          "[(''txtUsername'', ''Login_Elements.csv''), (''btnMissing'', ''Login_Elements.csv''),
            (''txtUsername'', ''Login_Elements.csv'')]"
          "''Login_Elements.csv''" "''txtUsername''"]
    not_loaded
  show ?thesis by simp
qed

text \<open>
  Claim C6. For every key and source file: when the lookup
  \<^const>\<open>get_values_from_csv\<close> returns \<^verbatim>\<open>None\<close>, the resolver returns \<^verbatim>\<open>None\<close> at once.
  The world it leaves is the world the lookup left: the files are those of before,
  and the only event the call can add is the one load of the source file by the
  lookup itself, so the page is not probed, the language model is not called and no
  file is opened for writing.
\<close>

theorem C6_absent_lookup_fails_at_once:
  assumes "fst (get_values_from_csv element file_name w) = None"
  shows "verify_and_get_locators_using_ai pg ai element file_name w =
           (None, snd (get_values_from_csv element file_name w))
       \<and> files (snd (verify_and_get_locators_using_ai pg ai element file_name w)) = files w
       \<and> new_events w (snd (verify_and_get_locators_using_ai pg ai element file_name w)) =
           (if file_name \<in> loaded_files w then [] else [OpenRead (csv_file file_name)])"
proof -
  have res: "verify_and_get_locators_using_ai pg ai element file_name w =
           (None, snd (get_values_from_csv element file_name w))"
    using assms
    by (cases "get_values_from_csv element file_name w")
      (simp add: verify_and_get_locators_using_ai_def)
  show ?thesis
    unfolding res by (simp add: new_events_get_values_from_csv)
qed

theorem C6_witness:
  "fst (get_values_from_csv ''btnMissing'' ''Login_Elements.csv'' login_world) = None
   \<and> fst (verify_and_get_locators_using_ai page_missing (answers ''x'') ''btnMissing''
            ''Login_Elements.csv'' login_world) = None
   \<and> new_events login_world
        (snd (verify_and_get_locators_using_ai page_missing (answers ''x'') ''btnMissing''
            ''Login_Elements.csv'' login_world)) = [OpenRead (csv_file ''Login_Elements.csv'')]"
proof -
  have not_loaded: "''Login_Elements.csv'' \<notin> loaded_files login_world"
    by (simp add: login_world_def)
  show ?thesis
    using C6_absent_lookup_fails_at_once [OF get_login_missing, of page_missing "answers ''x''"]
      get_login_missing not_loaded
    by (simp add: new_events_get_values_from_csv)
qed

text \<open>
  Claim C7. For every key whose resolved selector (a non-empty string: the resolver
  treats an empty one as not found and never probes it) appears on the live page
  within the timeout (\<^verbatim>\<open>wait_for_selector\<close> returns) and is confirmed visible
  (\<^verbatim>\<open>is_visible\<close> returns \<^verbatim>\<open>True\<close>), the resolver returns that selector unchanged.
  The events of the call are the lookup's load of the source file, if it was not
  loaded yet, and the two probes: the language model is not called and no file is
  written; the files and the cache are those the lookup left.
\<close>

theorem C7_visible_selector_returned_unchanged:
  assumes "get_values_from_csv element file_name w = (Some locator, w1)"
    and "locator \<noteq> []"
    and "wait_for_selector pg locator"
    and "is_visible pg locator = Some True"
  shows "fst (verify_and_get_locators_using_ai pg ai element file_name w) = Some locator
       \<and> files (snd (verify_and_get_locators_using_ai pg ai element file_name w)) = files w
       \<and> locators (snd (verify_and_get_locators_using_ai pg ai element file_name w)) = locators w1
       \<and> new_events w (snd (verify_and_get_locators_using_ai pg ai element file_name w)) =
           (if file_name \<in> loaded_files w then [] else [OpenRead (csv_file file_name)])
           @ [WaitForSelector locator, IsVisible locator]"
proof -
  have w1: "w1 = snd (get_values_from_csv element file_name w)"
    using assms(1) by simp
  have res: "verify_and_get_locators_using_ai pg ai element file_name w =
           (Some locator, emit [WaitForSelector locator, IsVisible locator] w1)"
    using assms by (simp add: verify_and_get_locators_using_ai_def)
  have "trace (emit [WaitForSelector locator, IsVisible locator] w1) =
          trace w @ ((if file_name \<in> loaded_files w then [] else [OpenRead (csv_file file_name)])
            @ [WaitForSelector locator, IsVisible locator])"
    by (simp add: w1 get_values_from_csv_trace)
  then have "new_events w (emit [WaitForSelector locator, IsVisible locator] w1) =
          (if file_name \<in> loaded_files w then [] else [OpenRead (csv_file file_name)])
            @ [WaitForSelector locator, IsVisible locator]"
    by (rule new_events_append)
  moreover have "files w1 = files w"
    by (simp add: w1)
  ultimately show ?thesis
    unfolding res by simp
qed

theorem C7_witness:
  "fst (verify_and_get_locators_using_ai page_visible service_down ''txtUsername''
          ''Login_Elements.csv'' login_world) = Some ''#user''
   \<and> new_events login_world
        (snd (verify_and_get_locators_using_ai page_visible service_down ''txtUsername''
          ''Login_Elements.csv'' login_world)) =
       [OpenRead (csv_file ''Login_Elements.csv''), WaitForSelector ''#user'', IsVisible ''#user'']"
proof -
  have not_loaded: "''Login_Elements.csv'' \<notin> loaded_files login_world"
    by (simp add: login_world_def)
  have "wait_for_selector page_visible ''#user''" "is_visible page_visible ''#user'' = Some True"
    by (simp_all add: page_visible_def)
  from C7_visible_selector_returned_unchanged [OF get_login _ this, of service_down] not_loaded
  show ?thesis by simp
qed

text \<open>
  Claim C8. The language-model call is attempted at most three times, with a sleep of
  two seconds between one attempt and the next, whatever the service does: the
  calls and sleeps of \<^const>\<open>generate_response_new\<close> are one attempt, or two with
  a sleep between, or three with two sleeps. When the probe of the resolved selector
  fails, the page content is read, and all three attempts fail (the call raises, or
  its message has no content), the resolver returns \<^verbatim>\<open>None\<close>; no file is changed
  and the cache is the one the lookup left, so no stale or made-up selector is
  returned or stored.
\<close>

theorem C8_three_failed_attempts_give_absent:
  assumes "get_values_from_csv element file_name w = (Some locator, w1)"
    and "locator \<noteq> []"
    and "\<not> wait_for_selector pg locator \<or> is_visible pg locator = None"
    and "content pg = Some html"
    and "attempt_fails (ai (prompt_for locator html) 0)"
    and "attempt_fails (ai (prompt_for locator html) 1)"
    and "attempt_fails (ai (prompt_for locator html) 2)"
  shows "snd (generate_response_new any_ai any_prompt) \<in>
           {[ChatCompletion],
            [ChatCompletion, Sleep 2, ChatCompletion],
            [ChatCompletion, Sleep 2, ChatCompletion, Sleep 2, ChatCompletion]}
       \<and> fst (verify_and_get_locators_using_ai pg ai element file_name w) = None
       \<and> files (snd (verify_and_get_locators_using_ai pg ai element file_name w)) = files w
       \<and> locators (snd (verify_and_get_locators_using_ai pg ai element file_name w)) = locators w1
       \<and> new_events w (snd (verify_and_get_locators_using_ai pg ai element file_name w)) =
           (if file_name \<in> loaded_files w then [] else [OpenRead (csv_file file_name)])
           @ (if wait_for_selector pg locator
              then [WaitForSelector locator, IsVisible locator]
              else [WaitForSelector locator])
           @ [PageContent, ChatCompletion, Sleep 2, ChatCompletion, Sleep 2, ChatCompletion]"
proof -
  let ?probes = "if wait_for_selector pg locator
                 then [WaitForSelector locator, IsVisible locator]
                 else [WaitForSelector locator]"
  let ?calls = "[PageContent, ChatCompletion, Sleep 2, ChatCompletion, Sleep 2, ChatCompletion]"
  have w1: "w1 = snd (get_values_from_csv element file_name w)"
    using assms(1) by simp
  have res: "verify_and_get_locators_using_ai pg ai element file_name w =
               (None, emit ?calls (emit ?probes w1))"
    unfolding verify_probe_fails [OF assms(1-3)]
    by (rule ai_correction_no_response [OF assms(4)])
      (rule generate_response_new_all_fail [of ai "prompt_for locator html", OF assms(5-7)])
  have "trace (emit ?calls (emit ?probes w1)) =
          trace w @ ((if file_name \<in> loaded_files w then [] else [OpenRead (csv_file file_name)])
            @ ?probes @ ?calls)"
    by (simp add: w1 get_values_from_csv_trace)
  then have "new_events w (emit ?calls (emit ?probes w1)) =
          (if file_name \<in> loaded_files w then [] else [OpenRead (csv_file file_name)])
            @ ?probes @ ?calls"
    by (rule new_events_append)
  moreover have "files w1 = files w"
    by (simp add: w1)
  ultimately show ?thesis
    unfolding res using generate_response_new_events [of any_ai any_prompt] by simp
qed

theorem C8_witness:
  "fst (verify_and_get_locators_using_ai page_missing service_down ''txtUsername''
          ''Login_Elements.csv'' login_world) = None
   \<and> files (snd (verify_and_get_locators_using_ai page_missing service_down ''txtUsername''
          ''Login_Elements.csv'' login_world)) (csv_file ''Login_Elements.csv'') = Some login_csv
   \<and> new_events login_world
        (snd (verify_and_get_locators_using_ai page_missing service_down ''txtUsername''
          ''Login_Elements.csv'' login_world)) =
       [OpenRead (csv_file ''Login_Elements.csv''), WaitForSelector ''#user'', PageContent,
        ChatCompletion, Sleep 2, ChatCompletion, Sleep 2, ChatCompletion]"
proof -
  have not_loaded: "''Login_Elements.csv'' \<notin> loaded_files login_world"
    and login_file: "files login_world (csv_file ''Login_Elements.csv'') = Some login_csv"
    by (simp_all add: login_world_def)
  have probe: "\<not> wait_for_selector page_missing ''#user'' \<or> is_visible page_missing ''#user'' = None"
    and no_wait: "\<not> wait_for_selector page_missing ''#user''"
    and page_html: "content page_missing = Some ''<html></html>''"
    by (simp_all add: page_missing_def)
  have down: "attempt_fails (service_down p i)" for p i
    by (simp add: service_down_def)
  from C8_three_failed_attempts_give_absent
      [where ai = service_down and pg = page_missing, OF get_login _ probe page_html down down down]
    not_loaded login_file no_wait
  show ?thesis by simp
qed

text \<open>
  Claim C9. The load fails to return the rows with a non-empty key and selector when
  the source file has a record of one field. In \<^const>\<open>short_row_csv\<close> the data rows
  are \<^verbatim>\<open>a,1\<close>, \<^verbatim>\<open>b\<close> and \<^verbatim>\<open>c,3\<close>; key and selector of the first and of the third
  are non-empty. For the row \<^verbatim>\<open>b\<close> the \<^verbatim>\<open>DictReader\<close> maps the column \<^verbatim>\<open>Locator\<close>
  to \<^verbatim>\<open>None\<close>, so \<^verbatim>\<open>row.get("Locator", "")\<close> is \<^verbatim>\<open>None\<close> and not the default,
  \<^verbatim>\<open>.strip()\<close> raises, the \<^verbatim>\<open>except\<close> ends the loop, and \<^verbatim>\<open>_load_csv\<close> returns the
  one entry read so far: the row \<^verbatim>\<open>c,3\<close> is lost. With the row \<^verbatim>\<open>b,\<close> in its place
  (\<^const>\<open>empty_selector_csv\<close>) the row is skipped and the load returns both
  \<^verbatim>\<open>a\<close> and \<^verbatim>\<open>c\<close>.
\<close>

theorem C9_short_row_ends_the_load:
  "files short_row_world (csv_file ''Login_Elements.csv'') = Some short_row_csv
   \<and> fst (csv_reader short_row_csv) =
       [[''Element Name'', ''Locator''], [''a'', ''1''], [''b''], [''c'', ''3'']]
   \<and> row_get (dict_row [''Element Name'', ''Locator''] [''b'']) ''Locator'' = None
   \<and> strip ''c'' = ''c'' \<and> strip ''3'' = ''3''
   \<and> fst (load_csv ''Login_Elements.csv'' short_row_world) = [(''a'', Some ''1'')]
   \<and> map_of (fst (load_csv ''Login_Elements.csv'' short_row_world)) ''c'' = None
   \<and> parse_locators empty_selector_csv = [(''a'', Some ''1''), (''c'', Some ''3'')]"
proof -
  have "files short_row_world (csv_file ''Login_Elements.csv'') = Some short_row_csv"
    by (simp add: short_row_world_def)
  moreover have "strip ''c'' = ''c''" and "strip ''3'' = ''3''"
    by (simp_all add: strip_def isspace_def)
  ultimately show ?thesis
    by (simp add: short_row_rows short_row_load short_row_locator empty_selector_load)
qed

text \<open>
  Claim C10. When \<^verbatim>\<open>wait_for_selector\<close> returns for the resolved selector and
  \<^verbatim>\<open>is_visible\<close> returns \<^verbatim>\<open>False\<close> without raising, the resolver returns \<^verbatim>\<open>None\<close>
  and the repair path is not entered: the events of the call are the lookup's load
  of the source file, if any, and the two probes, so the page content is not read,
  the language model is not called and no file is written, although the selector
  was present on the page.
\<close>

theorem C10_hidden_selector_is_absent_without_repair:
  assumes "get_values_from_csv element file_name w = (Some locator, w1)"
    and "locator \<noteq> []"
    and "wait_for_selector pg locator"
    and "is_visible pg locator = Some False"
  shows "fst (verify_and_get_locators_using_ai pg ai element file_name w) = None
       \<and> files (snd (verify_and_get_locators_using_ai pg ai element file_name w)) = files w
       \<and> locators (snd (verify_and_get_locators_using_ai pg ai element file_name w)) = locators w1
       \<and> new_events w (snd (verify_and_get_locators_using_ai pg ai element file_name w)) =
           (if file_name \<in> loaded_files w then [] else [OpenRead (csv_file file_name)])
           @ [WaitForSelector locator, IsVisible locator]"
proof -
  have w1: "w1 = snd (get_values_from_csv element file_name w)"
    using assms(1) by simp
  have res: "verify_and_get_locators_using_ai pg ai element file_name w =
           (None, emit [WaitForSelector locator, IsVisible locator] w1)"
    using assms by (simp add: verify_and_get_locators_using_ai_def)
  have "trace (emit [WaitForSelector locator, IsVisible locator] w1) =
          trace w @ ((if file_name \<in> loaded_files w then [] else [OpenRead (csv_file file_name)])
            @ [WaitForSelector locator, IsVisible locator])"
    by (simp add: w1 get_values_from_csv_trace)
  then have "new_events w (emit [WaitForSelector locator, IsVisible locator] w1) =
          (if file_name \<in> loaded_files w then [] else [OpenRead (csv_file file_name)])
            @ [WaitForSelector locator, IsVisible locator]"
    by (rule new_events_append)
  moreover have "files w1 = files w"
    by (simp add: w1)
  ultimately show ?thesis
    unfolding res by simp
qed

theorem C10_witness:
  "fst (verify_and_get_locators_using_ai page_hidden (answers ''x'') ''txtUsername''
          ''Login_Elements.csv'' login_world) = None
   \<and> files (snd (verify_and_get_locators_using_ai page_hidden (answers ''x'') ''txtUsername''
          ''Login_Elements.csv'' login_world)) (csv_file ''Login_Elements.csv'') = Some login_csv
   \<and> new_events login_world
        (snd (verify_and_get_locators_using_ai page_hidden (answers ''x'') ''txtUsername''
          ''Login_Elements.csv'' login_world)) =
       [OpenRead (csv_file ''Login_Elements.csv''), WaitForSelector ''#user'', IsVisible ''#user'']"
proof -
  have not_loaded: "''Login_Elements.csv'' \<notin> loaded_files login_world"
    and login_file: "files login_world (csv_file ''Login_Elements.csv'') = Some login_csv"
    by (simp_all add: login_world_def)
  have "wait_for_selector page_hidden ''#user''" "is_visible page_hidden ''#user'' = Some False"
    by (simp_all add: page_hidden_def)
  from C10_hidden_selector_is_absent_without_repair [OF get_login _ this, of "answers ''x''"]
    not_loaded login_file
  show ?thesis by simp
qed

end
